theory Spec2Isabelle
  imports Complex_Main "HOL-Library.AList"
begin

section \<open>The stream emission engine (class RxJSSocketServer) and its HTTP routes\<close>

text \<open>
  The engine is event driven: every callback (a socket event, an HTTP request, a
  \<open>setInterval\<close> firing, a \<open>setTimeout\<close> firing) runs to completion on one thread.
  The model is a state record and one function per method; the variables captured by
  the \<open>emitData\<close> closure of a \<open>startStream\<close> call (\<open>startTime\<close>, \<open>emissionCount\<close>,
  \<open>lastEmittedData\<close> and the destructured configuration) live in a store of closures,
  because timer callbacks keep using them after the registry entry is gone.
  \<open>Date.now()\<close> and every \<open>Math.random()\<close> draw of a callback are inputs (record \<open>Env\<close>).
  JavaScript numbers are reals, counters are naturals, timestamps are epoch milliseconds
  (the ISO formatting of \<open>toISOString\<close> is not modelled).
\<close>

subsection \<open>Configuration\<close>

text \<open>The \<open>config\<close> object as received: a property that is absent is \<open>None\<close>.\<close>

record RawConfig =
  rc_streamName :: "string option"
  rc_interval :: "real option"
  rc_duration :: "real option"
  rc_errorRate :: "real option"
  rc_duplicateRate :: "real option"
  rc_delayVariation :: "real option"
  rc_burstMode :: "bool option"
  rc_burstSize :: "int option"
  rc_burstInterval :: "real option"

text \<open>The constants bound by the destructuring pattern at the head of \<open>startStream\<close>.\<close>

record StreamConfig =
  streamName :: string
  interval :: real
  duration :: real
  errorRate :: real
  duplicateRate :: real
  delayVariation :: real
  burstMode :: bool
  burstSize :: int
  burstInterval :: real

definition orDefault :: "'a option \<Rightarrow> 'a \<Rightarrow> 'a" where
  "orDefault v d = (case v of None \<Rightarrow> d | Some x \<Rightarrow> x)"

definition destructure :: "RawConfig \<Rightarrow> StreamConfig" where
  "destructure config =
     \<lparr> streamName = orDefault (rc_streamName config) ''books'',
       interval = orDefault (rc_interval config) 3000,
       duration = orDefault (rc_duration config) 120000,
       errorRate = orDefault (rc_errorRate config) 0,
       duplicateRate = orDefault (rc_duplicateRate config) 0,
       delayVariation = orDefault (rc_delayVariation config) 0,
       burstMode = orDefault (rc_burstMode config) False,
       burstSize = orDefault (rc_burstSize config) 3,
       burstInterval = orDefault (rc_burstInterval config) 10000 \<rparr>"

definition emptyConfig :: RawConfig where
  "emptyConfig =
     \<lparr> rc_streamName = None, rc_interval = None, rc_duration = None, rc_errorRate = None,
       rc_duplicateRate = None, rc_delayVariation = None, rc_burstMode = None,
       rc_burstSize = None, rc_burstInterval = None \<rparr>"

subsection \<open>Payloads and events\<close>

record BookData =
  b_id :: nat
  b_title :: string
  b_author :: string
  b_isbn :: string
  b_publishedYear :: int
  b_available :: bool
  b_timestamp :: int
  b_category :: string

record IssueData =
  i_id :: nat
  i_bookId :: nat
  i_userId :: int
  i_userName :: string
  i_issueType :: string
  i_timestamp :: int
  i_dueDate :: "int option"
  i_fine :: int
  i_notes :: string

datatype data = Book BookData | Issue IssueData

datatype payload =
    DataP data
  | CompleteP string nat int
  | ErrorP string string int
  | StartedP string RawConfig
  | StoppedP string
  | ConfigsP "(string \<times> RawConfig) list"

text \<open>
  \<open>Broadcast ch p\<close> is \<open>io.emit(ch, p)\<close>, delivered to every connected socket;
  \<open>Targeted k ch p\<close> is \<open>socket.emit(ch, p)\<close> on connection \<open>k\<close> alone.
\<close>

datatype event = Broadcast string payload | Targeted nat string payload

text \<open>
  The \<open>socket\<close> argument of \<open>startStream\<close>: a real connection, or the object
  \<open>{ emit: () => {} }\<close> that the HTTP routes pass.
\<close>

datatype socket = Connection nat | NoopSocket

subsection \<open>Environment of one callback\<close>

record Env =
  now :: int
  rnd_error :: real
  rnd_duplicate :: real
  rnd_delay :: real
  rnd_gen :: "nat \<Rightarrow> real"

subsection \<open>Data generators\<close>

definition bookTitles :: "string list" where
  "bookTitles =
     [''The Midnight Library'', ''Project Hail Mary'', ''Dune Messiah'',
      ''Foundation's Edge'', ''The Way of Kings'', ''Name of the Wind'',
      ''Neuromancer'', ''Snow Crash'', ''Ready Player Two'',
      ''The Hobbit Returns'', ''Ender's Shadow'', ''Hyperion Cantos'',
      ''The Expanse: Leviathan'', ''Red Rising: Golden Son'', ''Mistborn: Shadows'']"

definition issueTypes :: "string list" where
  "issueTypes =
     [''borrowed'', ''returned'', ''renewed'', ''damaged'', ''lost'', ''reserved'', ''overdue'']"

definition users :: "string list" where
  "users =
     [''Alice Johnson'', ''Bob Smith'', ''Charlie Brown'', ''Diana Prince'',
      ''Ethan Hunt'', ''Fiona Green'', ''George Wilson'', ''Hannah Lee'']"

definition categories :: "string list" where
  "categories = [''Fiction'', ''Science'', ''History'', ''Technology'', ''Fantasy'']"

text \<open>\<open>arr[Math.floor(r * arr.length)]\<close>; an index out of range reads \<open>undefined\<close>.\<close>

definition pick :: "string list \<Rightarrow> real \<Rightarrow> string" where
  "pick arr r =
     (let k = \<lfloor>r * real (length arr)\<rfloor>
      in if 0 \<le> k \<and> k < int (length arr) then arr ! nat k else ''undefined'')"

function show_nat :: "nat \<Rightarrow> string" where
  "show_nat n =
     (if n < 10 then [''0123456789'' ! n]
      else show_nat (n div 10) @ [''0123456789'' ! (n mod 10)])"
  by pat_completeness auto
termination
  by (relation "measure id") auto

declare show_nat.simps [simp del]

definition generateBookData :: "nat \<Rightarrow> Env \<Rightarrow> data" where
  "generateBookData index env =
     (let g = rnd_gen env;
          title = pick bookTitles (g 0);
          randomSuffix = nat \<lfloor>g 1 * 100\<rfloor>
      in Book
        \<lparr> b_id = 1000 + index,
          b_title = title @ '' #'' @ show_nat randomSuffix,
          b_author = pick users (g 2),
          b_isbn = ''978-'' @ show_nat (nat \<lfloor>g 3 * 10\<rfloor>) @ show_nat (nat \<lfloor>g 4 * 100000000\<rfloor>),
          b_publishedYear = 2000 + \<lfloor>g 5 * 24\<rfloor>,
          b_available = (g 6 > 0.3),
          b_timestamp = now env,
          b_category = pick categories (g 7) \<rparr>)"

definition generateIssueData :: "nat \<Rightarrow> Env \<Rightarrow> data" where
  "generateIssueData index env =
     (let g = rnd_gen env;
          bookId = 1000 + nat \<lfloor>g 0 * real index + 1\<rfloor>;
          issueType = pick issueTypes (g 1)
      in Issue
        \<lparr> i_id = 5000 + index,
          i_bookId = bookId,
          i_userId = \<lfloor>g 2 * 100\<rfloor> + 1,
          i_userName = pick users (g 3),
          i_issueType = issueType,
          i_timestamp = now env,
          i_dueDate = (if issueType = ''borrowed''
                       then Some (now env + 14 * 24 * 60 * 60 * 1000) else None),
          i_fine = (if issueType = ''overdue'' then \<lfloor>g 4 * 50\<rfloor> + 5 else 0),
          i_notes = issueType @ '' operation for book '' @ show_nat bookId \<rparr>)"

subsection \<open>Server state\<close>

text \<open>The variables one \<open>startStream\<close> call declares and its \<open>emitData\<close> closes over.\<close>

record Closure =
  cfg :: StreamConfig
  startTime :: int
  emissionCount :: nat
  lastEmittedData :: "data option"

text \<open>
  The value stored in \<open>activeStreams\<close>. The getter \<open>emissionCount: () => emissionCount\<close>
  is the index of the closure it reads.
\<close>

record ActiveStream =
  intervalId :: nat
  as_config :: RawConfig
  as_startTime :: int
  as_emissionCount :: nat

text \<open>
  A \<open>setInterval\<close> timer: \<open>EmitData c\<close> is the callback \<open>emitData\<close> of closure \<open>c\<close>
  (normal mode), \<open>Burst c\<close> the burst callback. \<open>clearInterval\<close> marks it cleared.
\<close>

datatype callback = EmitData nat | Burst nat

record Interval =
  iv_callback :: callback
  iv_period :: real
  iv_due :: real
  iv_cleared :: bool

text \<open>
  A pending \<open>setTimeout\<close>: an emission attempt of a burst, or the delayed broadcast of
  a fresh payload. No handle of a timeout is kept anywhere in the source.
\<close>

datatype task = EmitTask nat | BroadcastTask nat data

record Timeout =
  t_task :: task
  t_due :: real

record State =
  activeStreams :: "(string \<times> ActiveStream) list"
  streamConfigs :: "(string \<times> RawConfig) list"
  closures :: "Closure list"
  intervals :: "Interval list"
  timeouts :: "Timeout list"
  emitted :: "event list"
  clock :: int

definition init :: State where
  "init = \<lparr> activeStreams = [], streamConfigs = [], closures = [], intervals = [],
            timeouts = [], emitted = [], clock = 0 \<rparr>"

definition io_emit :: "string \<Rightarrow> payload \<Rightarrow> State \<Rightarrow> State" where
  "io_emit ch p s = s\<lparr>emitted := emitted s @ [Broadcast ch p]\<rparr>"

definition socket_emit :: "socket \<Rightarrow> string \<Rightarrow> payload \<Rightarrow> State \<Rightarrow> State" where
  "socket_emit sock ch p s =
     (case sock of
        Connection k \<Rightarrow> s\<lparr>emitted := emitted s @ [Targeted k ch p]\<rparr>
      | NoopSocket \<Rightarrow> s)"

definition clearInterval :: "nat \<Rightarrow> State \<Rightarrow> State" where
  "clearInterval i s =
     (if i < length (intervals s)
      then s\<lparr>intervals := (intervals s)[i := (intervals s ! i)\<lparr>iv_cleared := True\<rparr>]\<rparr>
      else s)"

definition getStreamConfigs :: "State \<Rightarrow> (string \<times> RawConfig) list" where
  "getStreamConfigs s = streamConfigs s"

subsection \<open>stopStream, stopAllStreams\<close>

definition stopStream :: "string \<Rightarrow> State \<Rightarrow> State" where
  "stopStream name s =
     (case map_of (activeStreams s) name of
        None \<Rightarrow> s
      | Some stream \<Rightarrow>
          io_emit ''stream-stopped'' (StoppedP name)
            ((clearInterval (intervalId stream) s)
               \<lparr>activeStreams := AList.delete name (activeStreams s),
                streamConfigs := AList.delete name (streamConfigs s)\<rparr>))"

definition stopAllStreams :: "State \<Rightarrow> State" where
  "stopAllStreams s = fold stopStream (map fst (activeStreams s)) s"

subsection \<open>emitData: one emission attempt of closure \<open>c\<close>\<close>

definition generate :: "string \<Rightarrow> nat \<Rightarrow> Env \<Rightarrow> data" where
  "generate name index env =
     (if name = ''books'' then generateBookData index env else generateIssueData index env)"

definition emitData :: "nat \<Rightarrow> Env \<Rightarrow> State \<Rightarrow> State" where
  "emitData c env s =
     (if c < length (closures s) then
        (let cl = closures s ! c;
             k = cfg cl;
             elapsed = now env - startTime cl
         in if real_of_int elapsed \<ge> duration k then
              io_emit (streamName k @ ''-complete'')
                (CompleteP (streamName k) (emissionCount cl) elapsed)
                (stopStream (streamName k) s)
            else if errorRate k > 0 \<and> rnd_error env * 100 < errorRate k then
              io_emit (streamName k @ ''-error'')
                (ErrorP ''Simulated error''
                   ''Random error for teaching error handling operators'' (now env)) s
            else if duplicateRate k > 0 \<and> rnd_duplicate env * 100 < duplicateRate k
                    \<and> lastEmittedData cl \<noteq> None then
              (io_emit (streamName k) (DataP (the (lastEmittedData cl))) s)
                \<lparr>closures := (closures s)[c := cl\<lparr>emissionCount := emissionCount cl + 1\<rparr>]\<rparr>
            else
              (let data = generate (streamName k) (emissionCount cl) env;
                   emitDelay = (if delayVariation k > 0
                                then rnd_delay env * delayVariation k else 0)
               in s\<lparr>closures := (closures s)[c := cl\<lparr>lastEmittedData := Some data\<rparr>],
                    timeouts := timeouts s @
                      [\<lparr>t_task = BroadcastTask c data,
                        t_due = real_of_int (now env) + emitDelay\<rparr>]\<rparr>))
      else s)"

text \<open>The body of the delayed callback of a fresh emission (source lines 142-145).\<close>

definition broadcastData :: "nat \<Rightarrow> data \<Rightarrow> State \<Rightarrow> State" where
  "broadcastData c data s =
     (if c < length (closures s) then
        (let cl = closures s ! c
         in (io_emit (streamName (cfg cl)) (DataP data) s)
              \<lparr>closures := (closures s)[c := cl\<lparr>emissionCount := emissionCount cl + 1\<rparr>]\<rparr>)
      else s)"

subsection \<open>startStream\<close>

definition startStream :: "socket \<Rightarrow> RawConfig \<Rightarrow> Env \<Rightarrow> State \<Rightarrow> State" where
  "startStream sock config env s =
     (let k = destructure config;
          s1 = stopStream (streamName k) s;
          s2 = s1\<lparr>streamConfigs := AList.update (streamName k) config (streamConfigs s1)\<rparr>;
          c = length (closures s2);
          s3 = s2\<lparr>closures := closures s2 @
                 [\<lparr>cfg = k, startTime = now env, emissionCount = 0, lastEmittedData = None\<rparr>]\<rparr>;
          iid = length (intervals s3);
          s4 = (if burstMode k then
                  s3\<lparr>intervals := intervals s3 @
                    [\<lparr>iv_callback = Burst c, iv_period = burstInterval k,
                      iv_due = real_of_int (now env) + burstInterval k, iv_cleared = False\<rparr>]\<rparr>
                else
                  emitData c env
                    (s3\<lparr>intervals := intervals s3 @
                      [\<lparr>iv_callback = EmitData c, iv_period = interval k,
                        iv_due = real_of_int (now env) + interval k, iv_cleared = False\<rparr>]\<rparr>));
          s5 = s4\<lparr>activeStreams := AList.update (streamName k)
                 \<lparr>intervalId = iid, as_config = config, as_startTime = now env,
                  as_emissionCount = c\<rparr> (activeStreams s4)\<rparr>
      in socket_emit sock ''stream-started'' (StartedP (streamName k) config) s5)"

subsection \<open>Timer firings\<close>

text \<open>
  A timer fires no earlier than it is due. The burst callback queues \<open>burstSize\<close>
  emission attempts, \<open>100\<close> ms apart.
\<close>

definition intervalFires :: "nat \<Rightarrow> Env \<Rightarrow> State \<Rightarrow> State" where
  "intervalFires i env s =
     (if i < length (intervals s) \<and> \<not> iv_cleared (intervals s ! i)
         \<and> iv_due (intervals s ! i) \<le> real_of_int (now env) then
        (let iv = intervals s ! i;
             s' = s\<lparr>intervals := (intervals s)
                    [i := iv\<lparr>iv_due := real_of_int (now env) + iv_period iv\<rparr>]\<rparr>
         in case iv_callback iv of
              EmitData c \<Rightarrow> emitData c env s'
            | Burst c \<Rightarrow>
                (if c < length (closures s') then
                   s'\<lparr>timeouts := timeouts s' @
                       map (\<lambda>j. \<lparr>t_task = EmitTask c,
                                 t_due = real_of_int (now env) + real j * 100\<rparr>)
                           [0..<nat (burstSize (cfg (closures s' ! c)))]\<rparr>
                 else s'))
      else s)"

definition timeoutFires :: "nat \<Rightarrow> Env \<Rightarrow> State \<Rightarrow> State" where
  "timeoutFires j env s =
     (if j < length (timeouts s) \<and> t_due (timeouts s ! j) \<le> real_of_int (now env) then
        (let t = timeouts s ! j;
             s' = s\<lparr>timeouts := take j (timeouts s) @ drop (Suc j) (timeouts s)\<rparr>
         in case t_task t of
              EmitTask c \<Rightarrow> emitData c env s'
            | BroadcastTask c data \<Rightarrow> broadcastData c data s')
      else s)"

subsection \<open>HTTP routes (rxjs-demo-routes)\<close>

datatype body =
    ErrorBody string
  | StartedBody string RawConfig
  | StoppedBody string string
  | MessageBody string
  | PresetBody string "RawConfig list"

record Response =
  status :: nat
  json :: body

text \<open>\<open>!config.streamName\<close>: the property is absent or the empty string.\<close>

definition falsy :: "string option \<Rightarrow> bool" where
  "falsy v = (case v of None \<Rightarrow> True | Some n \<Rightarrow> n = [])"

definition route_start ::
  "State option \<Rightarrow> RawConfig \<Rightarrow> Env \<Rightarrow> Response \<times> State option" where
  "route_start socketServerInstance config env =
     (case socketServerInstance of
        None \<Rightarrow> (\<lparr>status = 503, json = ErrorBody ''Socket server not initialized''\<rparr>, None)
      | Some s \<Rightarrow>
          if falsy (rc_streamName config)
          then (\<lparr>status = 400, json = ErrorBody ''streamName is required''\<rparr>, Some s)
          else (\<lparr>status = 200, json = StartedBody ''Stream started'' config\<rparr>,
                Some (startStream NoopSocket config env s)))"

definition route_stop :: "State option \<Rightarrow> string \<Rightarrow> Response \<times> State option" where
  "route_stop socketServerInstance name =
     (case socketServerInstance of
        None \<Rightarrow> (\<lparr>status = 503, json = ErrorBody ''Socket server not initialized''\<rparr>, None)
      | Some s \<Rightarrow>
          (\<lparr>status = 200, json = StoppedBody ''Stream stopped'' name\<rparr>,
           Some (stopStream name s)))"

definition route_stop_all :: "State option \<Rightarrow> Response \<times> State option" where
  "route_stop_all socketServerInstance =
     (case socketServerInstance of
        None \<Rightarrow> (\<lparr>status = 503, json = ErrorBody ''Socket server not initialized''\<rparr>, None)
      | Some s \<Rightarrow>
          (\<lparr>status = 200, json = MessageBody ''All streams stopped''\<rparr>,
           Some (stopAllStreams s)))"

definition books :: RawConfig where
  "books = emptyConfig\<lparr>rc_streamName := Some ''books''\<rparr>"

definition issues :: RawConfig where
  "issues = emptyConfig\<lparr>rc_streamName := Some ''issues''\<rparr>"

text \<open>The catalog of \<open>POST /presets/:presetName\<close>, each preset in property order.\<close>

definition presets :: "(string \<times> RawConfig list) list" where
  "presets =
     [(''basic'',
        [books\<lparr>rc_interval := Some 2000, rc_duration := Some 60000\<rparr>,
         issues\<lparr>rc_interval := Some 3000, rc_duration := Some 60000\<rparr>]),
      (''throttleDebounce'',
        [books\<lparr>rc_interval := Some 500, rc_duration := Some 60000, rc_burstMode := Some True,
               rc_burstSize := Some 5, rc_burstInterval := Some 8000\<rparr>]),
      (''errorHandling'',
        [books\<lparr>rc_interval := Some 2000, rc_duration := Some 90000, rc_errorRate := Some 20\<rparr>]),
      (''distinctDuplicates'',
        [books\<lparr>rc_interval := Some 2000, rc_duration := Some 60000,
               rc_duplicateRate := Some 30\<rparr>]),
      (''combination'',
        [books\<lparr>rc_interval := Some 3000, rc_duration := Some 120000\<rparr>,
         issues\<lparr>rc_interval := Some 2000, rc_duration := Some 120000\<rparr>]),
      (''switching'',
        [books\<lparr>rc_interval := Some 4000, rc_duration := Some 90000,
               rc_delayVariation := Some 2000\<rparr>,
         issues\<lparr>rc_interval := Some 1500, rc_duration := Some 90000,
                rc_delayVariation := Some 1000\<rparr>]),
      (''buffering'',
        [books\<lparr>rc_interval := Some 800, rc_duration := Some 60000\<rparr>]),
      (''timing'',
        [books\<lparr>rc_interval := Some 3000, rc_duration := Some 120000,
               rc_delayVariation := Some 3000\<rparr>])]"

definition route_preset ::
  "State option \<Rightarrow> string \<Rightarrow> Env \<Rightarrow> Response \<times> State option" where
  "route_preset socketServerInstance presetName env =
     (case socketServerInstance of
        None \<Rightarrow> (\<lparr>status = 503, json = ErrorBody ''Socket server not initialized''\<rparr>, None)
      | Some s \<Rightarrow>
          (case map_of presets presetName of
             None \<Rightarrow> (\<lparr>status = 404, json = ErrorBody ''Preset not found''\<rparr>, Some s)
           | Some preset \<Rightarrow>
               (\<lparr>status = 200,
                 json = PresetBody (''Preset '' @ [CHR 0x27] @ presetName @ [CHR 0x27] @ '' started'') preset\<rparr>,
                Some (fold (\<lambda>config. startStream NoopSocket config env) preset s))))"

subsection \<open>The event loop\<close>

text \<open>
  One callback per step. \<open>server.js\<close> installs the engine before it listens, so the
  routes always see an instance. A step whose \<open>now\<close> lies before the clock cannot
  happen and leaves the state as it is.
\<close>

datatype action =
    OnConnection nat
  | OnStartStream nat RawConfig
  | OnStopStream string
  | OnGetConfigs nat
  | PostStart RawConfig
  | PostStop string
  | PostStopAll
  | PostPreset string
  | IntervalFires nat
  | TimeoutFires nat

definition instance_of :: "Response \<times> State option \<Rightarrow> State \<Rightarrow> State" where
  "instance_of r s = (case snd r of None \<Rightarrow> s | Some s' \<Rightarrow> s')"

fun dispatch :: "action \<Rightarrow> Env \<Rightarrow> State \<Rightarrow> State" where
  "dispatch (OnConnection k) env s =
     socket_emit (Connection k) ''stream-configs'' (ConfigsP (getStreamConfigs s)) s"
| "dispatch (OnStartStream k config) env s = startStream (Connection k) config env s"
| "dispatch (OnStopStream name) env s = stopStream name s"
| "dispatch (OnGetConfigs k) env s =
     socket_emit (Connection k) ''stream-configs'' (ConfigsP (getStreamConfigs s)) s"
| "dispatch (PostStart config) env s = instance_of (route_start (Some s) config env) s"
| "dispatch (PostStop name) env s = instance_of (route_stop (Some s) name) s"
| "dispatch PostStopAll env s = instance_of (route_stop_all (Some s)) s"
| "dispatch (PostPreset name) env s = instance_of (route_preset (Some s) name env) s"
| "dispatch (IntervalFires i) env s = intervalFires i env s"
| "dispatch (TimeoutFires j) env s = timeoutFires j env s"

definition step :: "Env \<times> action \<Rightarrow> State \<Rightarrow> State" where
  "step ea s =
     (if now (fst ea) < clock s then s
      else dispatch (snd ea) (fst ea) (s\<lparr>clock := now (fst ea)\<rparr>))"

definition run :: "(Env \<times> action) list \<Rightarrow> State \<Rightarrow> State" where
  "run tr s = fold step tr s"

subsection \<open>Observing one callback\<close>

definition new_events :: "State \<Rightarrow> State \<Rightarrow> event list" where
  "new_events s s' = drop (length (emitted s)) (emitted s')"

fun is_complete :: "event \<Rightarrow> bool" where
  "is_complete (Broadcast ch (CompleteP n t d)) = True"
| "is_complete e = False"

fun is_error :: "event \<Rightarrow> bool" where
  "is_error (Broadcast ch (ErrorP e m t)) = True"
| "is_error e = False"

fun is_data :: "event \<Rightarrow> bool" where
  "is_data (Broadcast ch (DataP d)) = True"
| "is_data e = False"

fun is_started :: "event \<Rightarrow> bool" where
  "is_started (Broadcast ch (StartedP n c)) = True"
| "is_started (Targeted k ch (StartedP n c)) = True"
| "is_started e = False"

datatype branch = DurationComplete | ErrorInjection | DuplicateInjection | FreshEmission

text \<open>
  The branches whose effect is visible between the state before and the state after an
  emission attempt: a completion event, an error event, a payload broadcast by the
  attempt itself, a fresh payload queued for broadcast.
\<close>

definition effects :: "State \<Rightarrow> State \<Rightarrow> branch list" where
  "effects s s' =
     (if list_ex is_complete (new_events s s') then [DurationComplete] else []) @
     (if list_ex is_error (new_events s s') then [ErrorInjection] else []) @
     (if list_ex is_data (new_events s s') then [DuplicateInjection] else []) @
     (if length (timeouts s) < length (timeouts s') then [FreshEmission] else [])"

subsection \<open>Predicates used by the run-level statements\<close>

text \<open>A delayed broadcast of closure \<open>c\<close> is waiting in the timer queue.\<close>

fun pending :: "nat \<Rightarrow> Timeout \<Rightarrow> bool" where
  "pending c t = (case t_task t of BroadcastTask c' d \<Rightarrow> c' = c | EmitTask c' \<Rightarrow> False)"

fun task_closure :: "task \<Rightarrow> nat" where
  "task_closure (EmitTask c) = c"
| "task_closure (BroadcastTask c d) = c"

text \<open>
  Closure \<open>c\<close> runs with \<open>errorRate = 100\<close> and has neither emitted, nor stored a
  payload, nor queued a broadcast.
\<close>

definition quiet :: "nat \<Rightarrow> State \<Rightarrow> bool" where
  "quiet c s \<longleftrightarrow>
     c < length (closures s) \<and> errorRate (cfg (closures s ! c)) = 100 \<and>
     emissionCount (closures s ! c) = 0 \<and> lastEmittedData (closures s ! c) = None \<and>
     \<not> list_ex (pending c) (timeouts s)"

text \<open>\<open>Math.random()\<close> returns a value in \<open>[0, 1)\<close>.\<close>

definition unit_draw :: "Env \<Rightarrow> bool" where
  "unit_draw env \<longleftrightarrow> 0 \<le> rnd_error env \<and> rnd_error env < 1"

definition tasks_bound :: "State \<Rightarrow> bool" where
  "tasks_bound s \<longleftrightarrow>
     list_all (\<lambda>t. task_closure (t_task t) < length (closures s)) (timeouts s)"

text \<open>No closure is lost and no counter is lower in \<open>s'\<close> than in \<open>s\<close>.\<close>

definition counts_le :: "State \<Rightarrow> State \<Rightarrow> bool" where
  "counts_le s s' \<longleftrightarrow>
     length (closures s) \<le> length (closures s') \<and>
     (\<forall>c < length (closures s).
        emissionCount (closures s ! c) \<le> emissionCount (closures s' ! c))"

text \<open>
  The interval timers that are not cleared, and the invariant that ties them to the
  registry: names are unique, and the live timers are the ones the entries hold.
\<close>

definition live_of :: "Interval list \<Rightarrow> nat list" where
  "live_of ivs = filter (\<lambda>i. \<not> iv_cleared (ivs ! i)) [0..<length ivs]"

definition live_intervals :: "State \<Rightarrow> nat list" where
  "live_intervals s = live_of (intervals s)"

definition registry_ok :: "State \<Rightarrow> bool" where
  "registry_ok s \<longleftrightarrow>
     distinct (map fst (activeStreams s)) \<and>
     distinct (map (intervalId \<circ> snd) (activeStreams s)) \<and>
     set (live_intervals s) = set (map (intervalId \<circ> snd) (activeStreams s))"

text \<open>The closure whose \<open>emitData\<close> a timer firing invokes, if the step is one.\<close>

definition attempt_of :: "Env \<times> action \<Rightarrow> State \<Rightarrow> nat option" where
  "attempt_of ea s =
     (if now (fst ea) < clock s then None
      else case snd ea of
        IntervalFires i \<Rightarrow>
          (if i < length (intervals s) \<and> \<not> iv_cleared (intervals s ! i)
              \<and> iv_due (intervals s ! i) \<le> real_of_int (now (fst ea))
           then (case iv_callback (intervals s ! i) of EmitData c \<Rightarrow> Some c | Burst c \<Rightarrow> None)
           else None)
      | TimeoutFires j \<Rightarrow>
          (if j < length (timeouts s) \<and> t_due (timeouts s ! j) \<le> real_of_int (now (fst ea))
           then (case t_task (timeouts s ! j) of
                   EmitTask c \<Rightarrow> Some c | BroadcastTask c d \<Rightarrow> None)
           else None)
      | _ \<Rightarrow> None)"

text \<open>
  The payload that step \<open>ea\<close> generates for closure \<open>c\<close>, when the step is an attempt
  of \<open>c\<close> that takes the fresh branch.
\<close>

definition fresh_payload :: "nat \<Rightarrow> Env \<times> action \<Rightarrow> State \<Rightarrow> data option" where
  "fresh_payload c ea s =
     (if attempt_of ea s = Some c \<and> effects s (emitData c (fst ea) s) = [FreshEmission]
      then Some (generate (streamName (cfg (closures s ! c)))
                   (emissionCount (closures s ! c)) (fst ea))
      else None)"

text \<open>The payload of the most recent fresh-branch attempt of \<open>c\<close> along a trace.\<close>

fun last_fresh :: "nat \<Rightarrow> (Env \<times> action) list \<Rightarrow> State \<Rightarrow> data option" where
  "last_fresh c [] s = None"
| "last_fresh c (ea # tr) s =
     (case last_fresh c tr (step ea s) of
        Some d \<Rightarrow> Some d
      | None \<Rightarrow> fresh_payload c ea s)"

subsection \<open>Concrete inputs\<close>

definition env_at :: "int \<Rightarrow> Env" where
  "env_at t = \<lparr>now = t, rnd_error = 1/2, rnd_duplicate = 1/2, rnd_delay = 1/2,
              rnd_gen = (\<lambda>_. 1/2)\<rparr>"

definition env_low :: "int \<Rightarrow> Env" where
  "env_low t = \<lparr>now = t, rnd_error = 1/10, rnd_duplicate = 1/10, rnd_delay = 1/10,
               rnd_gen = (\<lambda>_. 1/10)\<rparr>"

text \<open>
  \<open>{streamName: 'books', duration: 3000, burstMode: true, burstSize: 3,
  burstInterval: 5000}\<close>, started on connection \<open>0\<close>; the first burst fires at
  \<open>5000\<close> ms and its three attempts at \<open>5000\<close>, \<open>5100\<close>, \<open>5200\<close> ms.
\<close>

definition burst_config :: RawConfig where
  "burst_config = books\<lparr>rc_duration := Some 3000, rc_burstMode := Some True,
                        rc_burstSize := Some 3, rc_burstInterval := Some 5000\<rparr>"

definition burst_trace :: "(Env \<times> action) list" where
  "burst_trace =
     [(env_at 0, OnStartStream 0 burst_config),
      (env_at 5000, IntervalFires 0),
      (env_at 5000, TimeoutFires 0),
      (env_at 5100, TimeoutFires 0),
      (env_at 5200, TimeoutFires 0)]"

text \<open>\<open>{streamName: 'books', interval: 1000, duration: 0}\<close> in normal mode.\<close>

definition zero_config :: RawConfig where
  "zero_config = books\<lparr>rc_interval := Some 1000, rc_duration := Some 0\<rparr>"

definition zero_trace :: "(Env \<times> action) list" where
  "zero_trace =
     [(env_at 0, OnStartStream 0 zero_config),
      (env_at 1000, IntervalFires 0)]"

text \<open>
  Preset \<open>timing\<close> (\<open>delayVariation: 3000\<close>): the first payload is queued with a
  delay of \<open>1500\<close> ms, the stream is stopped over HTTP at \<open>1000\<close> ms, the delayed
  broadcast fires at \<open>1500\<close> ms.
\<close>

definition timing_trace :: "(Env \<times> action) list" where
  "timing_trace =
     [(env_at 0, PostPreset ''timing''),
      (env_at 1000, PostStop ''books''),
      (env_at 1500, TimeoutFires 0)]"

text \<open>
  \<open>{streamName: 'books', burstMode: true, burstSize: 3, burstInterval: 5000}\<close>,
  started again under the same name at \<open>5050\<close> ms, between the first and the second
  attempt of the burst of \<open>5000\<close> ms.
\<close>

definition restart_config :: RawConfig where
  "restart_config = books\<lparr>rc_burstMode := Some True, rc_burstSize := Some 3,
                          rc_burstInterval := Some 5000\<rparr>"

definition restart_trace :: "(Env \<times> action) list" where
  "restart_trace =
     [(env_at 0, OnStartStream 0 restart_config),
      (env_at 5000, IntervalFires 0),
      (env_at 5000, TimeoutFires 0),
      (env_at 5001, TimeoutFires 2),
      (env_at 5050, OnStartStream 0 restart_config),
      (env_at 5100, TimeoutFires 0),
      (env_at 5101, TimeoutFires 1)]"

text \<open>
  \<open>{streamName: 'books', interval: 2000, duplicateRate: 50, delayVariation: 3000}\<close>.
  The first payload is queued with a delay of \<open>2700\<close> ms, the second, generated at
  \<open>2000\<close> ms, with a delay of \<open>30\<close> ms; the attempt at \<open>4000\<close> ms draws a
  duplicate.
\<close>

definition replay_config :: RawConfig where
  "replay_config = books\<lparr>rc_interval := Some 2000, rc_duplicateRate := Some 50,
                         rc_delayVariation := Some 3000\<rparr>"

definition replay_env_A :: Env where
  "replay_env_A = (env_at 0)\<lparr>rnd_delay := 9/10\<rparr>"

definition replay_env_B :: Env where
  "replay_env_B = (env_at 2000)\<lparr>rnd_duplicate := 9/10, rnd_delay := 1/100\<rparr>"

definition replay_env_dup :: Env where
  "replay_env_dup = (env_at 4000)\<lparr>rnd_duplicate := 1/10\<rparr>"

definition replay_trace :: "(Env \<times> action) list" where
  "replay_trace =
     [(replay_env_A, OnStartStream 0 replay_config),
      (replay_env_B, IntervalFires 0),
      (env_at 2030, TimeoutFires 1),
      (env_at 2700, TimeoutFires 0),
      (replay_env_dup, IntervalFires 0)]"

text \<open>States reached by starting one preset on the fresh server.\<close>

definition errorHandling_state :: State where
  "errorHandling_state = run [(env_at 0, PostPreset ''errorHandling'')] init"

definition distinctDuplicates_state :: State where
  "distinctDuplicates_state = run [(env_at 0, PostPreset ''distinctDuplicates'')] init"

definition burst_state :: State where
  "burst_state = run [(env_at 0, OnStartStream 0 burst_config)] init"

definition always_error_config :: RawConfig where
  "always_error_config = books\<lparr>rc_errorRate := Some 100\<rparr>"

definition always_error_trace :: "(Env \<times> action) list" where
  "always_error_trace =
     [(env_at 3000, IntervalFires 0), (env_at 6000, IntervalFires 0)]"

section \<open>Properties\<close>

lemmas engine_defs =
  run_def step_def startStream_def stopStream_def emitData_def broadcastData_def
  intervalFires_def timeoutFires_def io_emit_def socket_emit_def clearInterval_def
  destructure_def orDefault_def emptyConfig_def books_def issues_def init_def
  route_start_def route_stop_def route_stop_all_def route_preset_def instance_of_def
  falsy_def presets_def stopAllStreams_def getStreamConfigs_def generate_def Let_def
  env_at_def env_low_def

subsection \<open>stopStream\<close>

lemma stopStream_emitted:
  "emitted (stopStream name s) =
     emitted s @ (case map_of (activeStreams s) name of None \<Rightarrow> []
                  | Some st \<Rightarrow> [Broadcast ''stream-stopped'' (StoppedP name)])"
  by (simp add: stopStream_def io_emit_def clearInterval_def split: option.splits)

lemma stopStream_timeouts [simp]: "timeouts (stopStream name s) = timeouts s"
  by (simp add: stopStream_def io_emit_def clearInterval_def split: option.splits)

lemma stopStream_closures [simp]: "closures (stopStream name s) = closures s"
  by (simp add: stopStream_def io_emit_def clearInterval_def split: option.splits)

lemma stopStream_absent: "map_of (activeStreams s) name = None \<Longrightarrow> stopStream name s = s"
  by (simp add: stopStream_def)

lemma stopStream_removes [simp]: "map_of (activeStreams (stopStream name s)) name = None"
  by (simp add: stopStream_def io_emit_def clearInterval_def delete_conv' split: option.splits)

lemma stopStream_unlists:
  "map_of (activeStreams s) name = Some st \<Longrightarrow>
   map_of (streamConfigs (stopStream name s)) name = None"
  by (simp add: stopStream_def io_emit_def clearInterval_def delete_conv')

lemma stopStream_clears:
  "map_of (activeStreams s) name = Some st \<Longrightarrow> intervalId st < length (intervals s) \<Longrightarrow>
   iv_cleared (intervals (stopStream name s) ! intervalId st)"
  by (simp add: stopStream_def io_emit_def clearInterval_def)

lemma stopStream_twice: "stopStream name (stopStream name s) = stopStream name s"
  by (rule stopStream_absent) simp

text \<open>
  C5. \<open>stopStream\<close> is idempotent. With no entry under the name it changes nothing and
  emits nothing. With an entry it clears the interval timer of the entry, removes the
  name from \<open>activeStreams\<close> and \<open>streamConfigs\<close>, and broadcasts exactly one
  \<open>stream-stopped\<close> event. The route \<open>POST /streams/stop/:streamName\<close> answers 200
  whether or not the stream existed.
\<close>

theorem stopStream_idempotent:
  "(map_of (activeStreams s) name = None \<longrightarrow> stopStream name s = s) \<and>
   (\<forall>st. map_of (activeStreams s) name = Some st \<longrightarrow>
      new_events s (stopStream name s) = [Broadcast ''stream-stopped'' (StoppedP name)] \<and>
      map_of (activeStreams (stopStream name s)) name = None \<and>
      map_of (getStreamConfigs (stopStream name s)) name = None \<and>
      (intervalId st < length (intervals s) \<longrightarrow>
         iv_cleared (intervals (stopStream name s) ! intervalId st))) \<and>
   stopStream name (stopStream name s) = stopStream name s \<and>
   route_stop (Some s) name =
     (\<lparr>status = 200, json = StoppedBody ''Stream stopped'' name\<rparr>, Some (stopStream name s))"
  by (simp add: stopStream_absent stopStream_unlists stopStream_clears stopStream_twice
        new_events_def stopStream_emitted route_stop_def getStreamConfigs_def)

theorem stopStream_idempotent_witness:
  "map_of (activeStreams init) ''books'' = None \<and> stopStream ''books'' init = init \<and>
   map_of (activeStreams errorHandling_state) ''books''
     = Some \<lparr>intervalId = 0, as_config = the (map_of (streamConfigs errorHandling_state) ''books''),
             as_startTime = 0, as_emissionCount = 0\<rparr> \<and>
   intervalId (the (map_of (activeStreams errorHandling_state) ''books''))
     < length (intervals errorHandling_state) \<and>
   new_events errorHandling_state (stopStream ''books'' errorHandling_state)
     = [Broadcast ''stream-stopped'' (StoppedP ''books'')] \<and>
   iv_cleared (intervals (stopStream ''books'' errorHandling_state) ! 0) \<and>
   status (fst (route_stop (Some init) ''books'')) = 200 \<and>
   status (fst (route_stop (Some errorHandling_state) ''books'')) = 200"
proof -
  have a: "map_of (activeStreams init) ''books'' = None"
    by (simp add: init_def)
  have b: "map_of (activeStreams errorHandling_state) ''books''
     = Some \<lparr>intervalId = 0, as_config = the (map_of (streamConfigs errorHandling_state) ''books''),
             as_startTime = 0, as_emissionCount = 0\<rparr>"
    by (simp add: errorHandling_state_def engine_defs)
  have c: "intervalId (the (map_of (activeStreams errorHandling_state) ''books''))
     < length (intervals errorHandling_state)"
    by (simp add: errorHandling_state_def engine_defs)
  show ?thesis
    using a b c stopStream_idempotent [of init "''books''"]
      stopStream_idempotent [of errorHandling_state "''books''"]
    by simp
qed

subsection \<open>emitData\<close>

lemma effects_refl [simp]: "effects s s = []"
  by (simp add: effects_def new_events_def)

lemma emitData_out_of_range: "\<not> c < length (closures s) \<Longrightarrow> emitData c env s = s"
  by (simp add: emitData_def)

lemma emitData_effects:
  assumes "c < length (closures s)"
  shows "effects s (emitData c env s) =
     [let cl = closures s ! c; k = cfg cl in
      if duration k \<le> real_of_int (now env - startTime cl) then DurationComplete
      else if 0 < errorRate k \<and> rnd_error env * 100 < errorRate k then ErrorInjection
      else if 0 < duplicateRate k \<and> rnd_duplicate env * 100 < duplicateRate k
              \<and> lastEmittedData cl \<noteq> None then DuplicateInjection
      else FreshEmission]"
  using assms
  by (auto simp: effects_def emitData_def new_events_def io_emit_def stopStream_emitted Let_def
           split: option.splits)

lemma effects_in_range: "effects s (emitData c env s) \<noteq> [] \<Longrightarrow> c < length (closures s)"
  by (cases "c < length (closures s)") (simp_all add: emitData_out_of_range)

text \<open>
  C1. An emission attempt of an existing closure shows the effect of exactly one of the
  four branches, and which one is decided by the guards in their order: duration first,
  then error injection, then duplicate injection, otherwise a fresh emission.
\<close>

theorem emitData_exactly_one_branch:
  assumes "c < length (closures s)"
  shows "effects s (emitData c env s) =
     [let cl = closures s ! c; k = cfg cl in
      if duration k \<le> real_of_int (now env - startTime cl) then DurationComplete
      else if 0 < errorRate k \<and> rnd_error env * 100 < errorRate k then ErrorInjection
      else if 0 < duplicateRate k \<and> rnd_duplicate env * 100 < duplicateRate k
              \<and> lastEmittedData cl \<noteq> None then DuplicateInjection
      else FreshEmission]"
  using assms by (rule emitData_effects)

theorem emitData_exactly_one_branch_witness:
  "0 < length (closures distinctDuplicates_state) \<and>
   effects distinctDuplicates_state (emitData 0 (env_at 2000) distinctDuplicates_state)
     = [FreshEmission] \<and>
   effects distinctDuplicates_state (emitData 0 (env_low 2000) distinctDuplicates_state)
     = [DuplicateInjection] \<and>
   effects distinctDuplicates_state (emitData 0 (env_low 60000) distinctDuplicates_state)
     = [DurationComplete]"
proof -
  have h: "0 < length (closures distinctDuplicates_state)"
    by (simp add: distinctDuplicates_state_def engine_defs)
  have cl: "cfg (closures distinctDuplicates_state ! 0) = destructure (books\<lparr>rc_interval := Some 2000, rc_duration := Some 60000,
               rc_duplicateRate := Some 30\<rparr>)"
     "startTime (closures distinctDuplicates_state ! 0) = 0"
     "lastEmittedData (closures distinctDuplicates_state ! 0) \<noteq> None"
    by (simp_all add: distinctDuplicates_state_def engine_defs)
  show ?thesis
    using h emitData_exactly_one_branch [OF h, of "env_at 2000"]
      emitData_exactly_one_branch [OF h, of "env_low 2000"]
      emitData_exactly_one_branch [OF h, of "env_low 60000"]
    by (simp add: cl Let_def destructure_def orDefault_def books_def emptyConfig_def
          env_at_def env_low_def)
qed

text \<open>
  C8. An attempt that takes the error branch appends one error event to the broadcast
  log and changes nothing else: registry, closures (so \<open>emissionCount\<close> and
  \<open>lastEmittedData\<close>), interval timers and pending timeouts are as before.
\<close>

theorem error_tick_frame:
  assumes "effects s (emitData c env s) = [ErrorInjection]"
  shows "emitData c env s =
           s\<lparr>emitted := emitted s @
                [Broadcast (streamName (cfg (closures s ! c)) @ ''-error'')
                   (ErrorP ''Simulated error''
                      ''Random error for teaching error handling operators'' (now env))]\<rparr>"
proof -
  have c: "c < length (closures s)"
    using assms by (intro effects_in_range [of s c env]) simp
  from emitData_effects [OF c, of env] assms
  have "\<not> duration (cfg (closures s ! c)) \<le> real_of_int (now env - startTime (closures s ! c))"
    and "0 < errorRate (cfg (closures s ! c))
         \<and> rnd_error env * 100 < errorRate (cfg (closures s ! c))"
    by (auto simp: Let_def split: if_splits)
  with c show ?thesis
    by (simp add: emitData_def io_emit_def Let_def)
qed

theorem error_tick_frame_witness:
  "effects errorHandling_state (emitData 0 (env_low 2000) errorHandling_state)
     = [ErrorInjection] \<and>
   emitData 0 (env_low 2000) errorHandling_state =
     errorHandling_state\<lparr>emitted := emitted errorHandling_state @
        [Broadcast ''books-error''
           (ErrorP ''Simulated error''
              ''Random error for teaching error handling operators'' 2000)]\<rparr>"
proof -
  have h: "effects errorHandling_state (emitData 0 (env_low 2000) errorHandling_state)
     = [ErrorInjection]"
    by (simp add: errorHandling_state_def engine_defs effects_def new_events_def)
  have n: "streamName (cfg (closures errorHandling_state ! 0)) = ''books''"
    by (simp add: errorHandling_state_def engine_defs)
  show ?thesis
    using h error_tick_frame [OF h]
    by (simp add: n env_low_def)
qed

text \<open>
  When an attempt takes the completion branch while a stream is registered under the
  closure's name, the stream is stopped through \<open>stopStream\<close> first: at that point
  \<open>stream-stopped\<close> has been broadcast and the name is gone from \<open>activeStreams\<close> and
  from what \<open>getStreamConfigs\<close> returns. Only then is the completion event broadcast, so
  the attempt adds \<open>stream-stopped\<close> and then \<open>name-complete\<close> to the log.
\<close>

lemma completion_reuses_stop:
  fixes s :: State and c :: nat and env :: Env
  defines "cl \<equiv> closures s ! c"
  defines "name \<equiv> streamName (cfg (closures s ! c))"
  defines "done \<equiv> CompleteP (streamName (cfg (closures s ! c)))
                    (emissionCount (closures s ! c)) (now env - startTime (closures s ! c))"
  assumes "c < length (closures s)"
    and "duration (cfg cl) \<le> real_of_int (now env - startTime cl)"
    and "map_of (activeStreams s) name = Some st"
  shows "emitData c env s = io_emit (name @ ''-complete'') done (stopStream name s) \<and>
         new_events s (stopStream name s) = [Broadcast ''stream-stopped'' (StoppedP name)] \<and>
         map_of (activeStreams (stopStream name s)) name = None \<and>
         map_of (getStreamConfigs (stopStream name s)) name = None \<and>
         new_events s (emitData c env s) =
           [Broadcast ''stream-stopped'' (StoppedP name),
            Broadcast (name @ ''-complete'') done] \<and>
         map_of (activeStreams (emitData c env s)) name = None \<and>
         map_of (getStreamConfigs (emitData c env s)) name = None"
  using assms
  by (simp add: emitData_def Let_def new_events_def stopStream_emitted stopStream_unlists
        io_emit_def getStreamConfigs_def)

lemma completion_reuses_stop_example:
  "0 < length (closures errorHandling_state) \<and>
   duration (cfg (closures errorHandling_state ! 0))
     \<le> real_of_int (now (env_at 90000) - startTime (closures errorHandling_state ! 0)) \<and>
   map_of (activeStreams errorHandling_state) ''books''
     = Some \<lparr>intervalId = 0,
             as_config = books\<lparr>rc_interval := Some 2000, rc_duration := Some 90000,
                                rc_errorRate := Some 20\<rparr>,
             as_startTime = 0, as_emissionCount = 0\<rparr> \<and>
   new_events errorHandling_state (emitData 0 (env_at 90000) errorHandling_state) =
     [Broadcast ''stream-stopped'' (StoppedP ''books''),
      Broadcast ''books-complete'' (CompleteP ''books'' 0 90000)] \<and>
   map_of (getStreamConfigs (emitData 0 (env_at 90000) errorHandling_state)) ''books'' = None"
proof -
  have a: "0 < length (closures errorHandling_state)"
    by (simp add: errorHandling_state_def engine_defs)
  have b: "duration (cfg (closures errorHandling_state ! 0))
     \<le> real_of_int (now (env_at 90000) - startTime (closures errorHandling_state ! 0))"
    by (simp add: errorHandling_state_def engine_defs)
  have n: "streamName (cfg (closures errorHandling_state ! 0)) = ''books''"
    "emissionCount (closures errorHandling_state ! 0) = 0"
    "startTime (closures errorHandling_state ! 0) = 0"
    by (simp_all add: errorHandling_state_def engine_defs)
  have c: "map_of (activeStreams errorHandling_state)
       (streamName (cfg (closures errorHandling_state ! 0)))
     = Some \<lparr>intervalId = 0,
             as_config = books\<lparr>rc_interval := Some 2000, rc_duration := Some 90000,
                                rc_errorRate := Some 20\<rparr>,
             as_startTime = 0, as_emissionCount = 0\<rparr>"
    by (simp add: errorHandling_state_def engine_defs)
  show ?thesis
    using a b c completion_reuses_stop [OF a b c]
    by (auto simp add: n env_at_def)
qed

subsection \<open>The stream-started event\<close>

lemma stopStream_started:
  "filter is_started (emitted (stopStream name s)) = filter is_started (emitted s)"
  by (simp add: stopStream_emitted split: option.splits)

lemma emitData_started:
  "filter is_started (emitted (emitData c env s)) = filter is_started (emitted s)"
  by (simp add: emitData_def Let_def io_emit_def stopStream_started)

lemma startStream_started:
  "filter is_started (emitted (startStream sock config env s)) =
     filter is_started (emitted s) @
       (case sock of
          Connection k \<Rightarrow>
            [Targeted k ''stream-started'' (StartedP (streamName (destructure config)) config)]
        | NoopSocket \<Rightarrow> [])"
proof -
  have e: "filter is_started (emitted (emitData c env s')) = filter is_started (emitted s)"
    if "emitted s' = emitted (stopStream (streamName (destructure config)) s)" for c s'
    using that by (simp add: emitData_started stopStream_started)
  show ?thesis
    unfolding startStream_def Let_def
    by (cases sock; cases "burstMode (destructure config)")
       (simp_all add: socket_emit_def stopStream_started e)
qed

lemma fold_startStream_started:
  "filter is_started (emitted (fold (\<lambda>config. startStream NoopSocket config env) cs s)) =
     filter is_started (emitted s)"
  by (induction cs arbitrary: s) (simp_all add: startStream_started)

text \<open>
  C9, as amended. Started from the session channel, a stream makes exactly one
  \<open>stream-started\<close> event, sent with \<open>socket.emit\<close> to the connection that asked for it
  and to no other. Started over HTTP (\<open>POST /streams/start\<close> or a preset), the event
  goes to the routes' no-op socket: the log gains no \<open>stream-started\<close> event at all.
\<close>

theorem stream_started_is_targeted:
  "filter is_started (emitted (dispatch (OnStartStream k config) env s)) =
     filter is_started (emitted s) @
       [Targeted k ''stream-started'' (StartedP (streamName (destructure config)) config)] \<and>
   filter is_started (emitted (dispatch (PostStart config) env s)) =
     filter is_started (emitted s) \<and>
   filter is_started (emitted (dispatch (PostPreset presetName) env s)) =
     filter is_started (emitted s)"
  by (simp add: startStream_started route_start_def route_preset_def instance_of_def
        fold_startStream_started split: option.splits)

text \<open>
  C9 as stated fails: on the fresh server, \<open>start-stream\<close> from connection \<open>0\<close>
  broadcasts no \<open>stream-started\<close> event, and \<open>POST /streams/start\<close> produces no
  \<open>stream-started\<close> event of any kind.
\<close>

theorem stream_started_not_broadcast:
  "Broadcast ''stream-started'' (StartedP ''books'' books)
     \<notin> set (emitted (dispatch (OnStartStream 0 books) (env_at 0) init)) \<and>
   \<not> list_ex is_started (emitted (dispatch (PostStart books) (env_at 0) init))"
  by (simp add: engine_defs)

theorem stream_started_is_targeted_witness:
  "filter is_started (emitted (dispatch (OnStartStream 7 books) (env_at 0) init)) =
     [Targeted 7 ''stream-started'' (StartedP ''books'' books)] \<and>
   filter is_started (emitted (dispatch (PostStart books) (env_at 0) init)) = [] \<and>
   filter is_started (emitted (dispatch (PostPreset ''basic'') (env_at 0) init)) = []"
proof -
  have e: "emitted init = []" by (simp add: init_def)
  have n: "streamName (destructure books) = ''books''"
    by (simp add: destructure_def orDefault_def books_def emptyConfig_def)
  show ?thesis
    using stream_started_is_targeted [of 7 books "env_at 0" init "''basic''"]
    by (simp add: e n)
qed

subsection \<open>The counter of a closure never decreases\<close>

lemma counts_le_refl [simp]: "counts_le s s"
  by (simp add: counts_le_def)

lemma counts_le_trans: "counts_le s s' \<Longrightarrow> counts_le s' s'' \<Longrightarrow> counts_le s s''"
  unfolding counts_le_def by (meson le_trans less_le_trans)

lemma counts_le_same: "closures s' = closures s \<Longrightarrow> counts_le s s'"
  by (simp add: counts_le_def)

lemma counts_le_stopStream: "counts_le s (stopStream name s)"
  by (simp add: counts_le_same)

lemma counts_le_emitData: "counts_le s (emitData c env s)"
  by (simp add: counts_le_def emitData_def Let_def io_emit_def nth_list_update)

lemma counts_le_broadcastData: "counts_le s (broadcastData c d s)"
  by (simp add: counts_le_def broadcastData_def Let_def io_emit_def nth_list_update)

lemma counts_le_frame [simp]:
  "counts_le s (s'\<lparr>activeStreams := a\<rparr>) = counts_le s s'"
  "counts_le s (s'\<lparr>streamConfigs := b\<rparr>) = counts_le s s'"
  "counts_le s (s'\<lparr>intervals := i\<rparr>) = counts_le s s'"
  "counts_le s (s'\<lparr>timeouts := ts\<rparr>) = counts_le s s'"
  "counts_le s (s'\<lparr>emitted := e\<rparr>) = counts_le s s'"
  "counts_le s (s'\<lparr>clock := t\<rparr>) = counts_le s s'"
  by (simp_all add: counts_le_def)

lemma counts_le_startStream: "counts_le s (startStream sock config env s)"
proof -
  have g: "counts_le s s'" if "closures s' = closures s @ [cl]" for s' cl
    using that by (simp add: counts_le_def nth_append)
  have e: "counts_le s (emitData c env s')" if "closures s' = closures s @ [cl]" for s' cl c
    using g [OF that] counts_le_emitData by (rule counts_le_trans)
  show ?thesis
    unfolding startStream_def Let_def
    apply (cases sock; cases "burstMode (destructure config)"; simp add: socket_emit_def)
       apply (rule g; simp)
      apply (rule e; simp)
     apply (rule g; simp)
    apply (rule e; simp)
    done
qed

lemma counts_le_fold_start:
  "counts_le s (fold (\<lambda>config. startStream NoopSocket config env) cs s)"
proof (induction cs arbitrary: s)
  case Nil
  show ?case by simp
next
  case (Cons config cs)
  show ?case
    by simp (rule counts_le_trans [OF counts_le_startStream Cons])
qed

lemma counts_le_fold_stop: "counts_le s (fold stopStream ns s)"
proof (induction ns arbitrary: s)
  case Nil
  show ?case by simp
next
  case (Cons n ns)
  show ?case
    by simp (rule counts_le_trans [OF counts_le_stopStream Cons])
qed

lemma counts_le_intervalFires: "counts_le s (intervalFires i env s)"
proof -
  have "counts_le s (emitData c env (s\<lparr>intervals := ivs\<rparr>))" for c ivs
    by (rule counts_le_trans [OF _ counts_le_emitData]) (simp add: counts_le_same)
  then show ?thesis
    by (simp add: intervalFires_def Let_def counts_le_same split: callback.splits)
qed

lemma counts_le_timeoutFires: "counts_le s (timeoutFires j env s)"
proof -
  have "counts_le s (emitData c env (s\<lparr>timeouts := ts\<rparr>))" for c ts
    by (rule counts_le_trans [OF _ counts_le_emitData]) (simp add: counts_le_same)
  moreover have "counts_le s (broadcastData c d (s\<lparr>timeouts := ts\<rparr>))" for c d ts
    by (rule counts_le_trans [OF _ counts_le_broadcastData]) (simp add: counts_le_same)
  ultimately show ?thesis
    by (simp add: timeoutFires_def Let_def split: task.splits)
qed

lemma counts_le_dispatch: "counts_le s (dispatch a env s)"
  by (cases a)
     (simp_all add: socket_emit_def counts_le_same counts_le_startStream counts_le_stopStream
        counts_le_intervalFires counts_le_timeoutFires route_start_def route_stop_def
        route_stop_all_def route_preset_def instance_of_def stopAllStreams_def
        counts_le_fold_stop counts_le_fold_start split: option.splits)

lemma counts_le_step: "counts_le s (step ea s)"
proof -
  have "counts_le s (dispatch a env (s\<lparr>clock := t\<rparr>))" for a env t
    by (rule counts_le_trans [OF _ counts_le_dispatch]) (simp add: counts_le_same)
  then show ?thesis by (simp add: step_def)
qed

lemma emissionCount_never_decreases:
  "c < length (closures s) \<Longrightarrow>
   emissionCount (closures s ! c) \<le> emissionCount (closures (run tr s) ! c)"
proof -
  have "counts_le s (run tr s)"
    unfolding run_def
  proof (induction tr arbitrary: s)
    case Nil
    show ?case by simp
  next
    case (Cons ea tr)
    show ?case
      by simp (rule counts_le_trans [OF counts_le_step Cons])
  qed
  then show "c < length (closures s) \<Longrightarrow>
    emissionCount (closures s ! c) \<le> emissionCount (closures (run tr s) ! c)"
    by (simp add: counts_le_def)
qed

lemma broadcast_counts_one:
  "c < length (closures s) \<Longrightarrow>
   emissionCount (closures (broadcastData c d s) ! c) = emissionCount (closures s ! c) + 1 \<and>
   new_events s (broadcastData c d s) = [Broadcast (streamName (cfg (closures s ! c))) (DataP d)]"
  by (simp add: broadcastData_def Let_def io_emit_def new_events_def)

subsection \<open>The stored payload\<close>

lemma effects_closures_cong:
  assumes "closures s1 = closures s2" and "c < length (closures s2)"
  shows "effects s1 (emitData c env s1) = effects s2 (emitData c env s2)"
  using assms emitData_effects [of c s1 env] emitData_effects [of c s2 env] by simp

lemma emitData_stored:
  assumes "c < length (closures s)"
  shows "lastEmittedData (closures (emitData c' env s) ! c) =
           (if c' = c \<and> effects s (emitData c env s) = [FreshEmission]
            then Some (generate (streamName (cfg (closures s ! c)))
                         (emissionCount (closures s ! c)) env)
            else lastEmittedData (closures s ! c))"
proof (cases "c' = c")
  case True
  with assms show ?thesis
    unfolding emitData_effects [OF assms]
    by (auto simp add: emitData_def Let_def io_emit_def)
next
  case False
  with assms show ?thesis
    by (simp add: emitData_def Let_def io_emit_def)
qed

lemma broadcastData_stored:
  "c < length (closures s) \<Longrightarrow>
   lastEmittedData (closures (broadcastData c' d s) ! c) = lastEmittedData (closures s ! c)"
  by (cases "c' = c") (simp_all add: broadcastData_def Let_def io_emit_def)

lemma emitData_other_closure:
  "c < length (closures s) \<Longrightarrow> c' \<noteq> c \<Longrightarrow>
   closures (emitData c' env s) ! c = closures s ! c"
  by (simp add: emitData_def Let_def io_emit_def)

lemma startStream_old_closures:
  assumes "c < length (closures s)"
  shows "closures (startStream sock config env s) ! c = closures s ! c"
proof -
  have e: "closures (emitData (length (closures s)) env st) ! c = closures s ! c"
    if "closures st = closures s @ [cl]" for st cl
    using emitData_other_closure [of c st "length (closures s)" env] that assms
    by (simp add: nth_append)
  show ?thesis
    unfolding startStream_def Let_def
    apply (cases sock; cases "burstMode (destructure config)"; simp add: socket_emit_def)
       apply (simp add: nth_append assms)
      apply (rule e; simp)
     apply (simp add: nth_append assms)
    apply (rule e; simp)
    done
qed

lemma fold_startStream_old_closures:
  "c < length (closures s) \<Longrightarrow>
   closures (fold (\<lambda>config. startStream NoopSocket config env) cs s) ! c = closures s ! c"
proof (induction cs arbitrary: s)
  case Nil
  show ?case by simp
next
  case (Cons config cs)
  have "c < length (closures (startStream NoopSocket config env s))"
    using Cons.prems counts_le_startStream [of s NoopSocket config env]
    by (simp add: counts_le_def)
  from Cons.IH [OF this] Cons.prems show ?case
    by (simp add: startStream_old_closures)
qed

lemma fold_stopStream_closures [simp]: "closures (fold stopStream ns s) = closures s"
  by (induction ns arbitrary: s) simp_all

lemma dispatch_stored:
  assumes "c < length (closures s)" and "\<not> now env < clock s"
  shows "lastEmittedData (closures (dispatch a env s) ! c) =
           (case fresh_payload c (env, a) s of
              Some d \<Rightarrow> Some d
            | None \<Rightarrow> lastEmittedData (closures s ! c))"
proof (cases a)
  case (OnConnection k)
  then show ?thesis by (simp add: socket_emit_def fresh_payload_def attempt_of_def)
next
  case (OnStartStream k config)
  with assms show ?thesis
    by (simp add: startStream_old_closures fresh_payload_def attempt_of_def)
next
  case (OnStopStream name)
  then show ?thesis by (simp add: fresh_payload_def attempt_of_def)
next
  case (OnGetConfigs k)
  then show ?thesis by (simp add: socket_emit_def fresh_payload_def attempt_of_def)
next
  case (PostStart config)
  with assms show ?thesis
    by (simp add: route_start_def instance_of_def startStream_old_closures
          fresh_payload_def attempt_of_def)
next
  case (PostStop name)
  then show ?thesis
    by (simp add: route_stop_def instance_of_def fresh_payload_def attempt_of_def)
next
  case PostStopAll
  then show ?thesis
    by (simp add: route_stop_all_def instance_of_def stopAllStreams_def
          fresh_payload_def attempt_of_def)
next
  case (PostPreset name)
  with assms show ?thesis
    by (cases "map_of presets name")
       (simp_all add: route_preset_def instance_of_def fold_startStream_old_closures
          fresh_payload_def attempt_of_def)
next
  case (IntervalFires i)
  show ?thesis
  proof (cases "i < length (intervals s) \<and> \<not> iv_cleared (intervals s ! i)
         \<and> iv_due (intervals s ! i) \<le> real_of_int (now env)")
    case False
    with IntervalFires assms show ?thesis
      by (auto simp add: intervalFires_def fresh_payload_def attempt_of_def)
  next
    case True
    show ?thesis
    proof (cases "iv_callback (intervals s ! i)")
      case (EmitData c')
      let ?s' = "s\<lparr>intervals := (intervals s)
                    [i := (intervals s ! i)
                       \<lparr>iv_due := real_of_int (now env) + iv_period (intervals s ! i)\<rparr>]\<rparr>"
      have "effects ?s' (emitData c env ?s') = effects s (emitData c env s)"
        by (rule effects_closures_cong) (simp_all add: assms)
      with IntervalFires True EmitData assms emitData_stored [of c ?s' c' env]
      show ?thesis
        by (simp add: intervalFires_def Let_def fresh_payload_def attempt_of_def)
    next
      case (Burst c')
      with IntervalFires True assms show ?thesis
        by (simp add: intervalFires_def Let_def fresh_payload_def attempt_of_def)
    qed
  qed
next
  case (TimeoutFires j)
  show ?thesis
  proof (cases "j < length (timeouts s) \<and> t_due (timeouts s ! j) \<le> real_of_int (now env)")
    case False
    with TimeoutFires assms show ?thesis
      by (auto simp add: timeoutFires_def fresh_payload_def attempt_of_def)
  next
    case True
    let ?s' = "s\<lparr>timeouts := take j (timeouts s) @ drop (Suc j) (timeouts s)\<rparr>"
    show ?thesis
    proof (cases "t_task (timeouts s ! j)")
      case (EmitTask c')
      have "effects ?s' (emitData c env ?s') = effects s (emitData c env s)"
        by (rule effects_closures_cong) (simp_all add: assms)
      with TimeoutFires True EmitTask assms emitData_stored [of c ?s' c' env]
      show ?thesis
        by (simp add: timeoutFires_def Let_def fresh_payload_def attempt_of_def)
    next
      case (BroadcastTask c' d)
      with TimeoutFires True assms broadcastData_stored [of c ?s' c' d]
      show ?thesis
        by (simp add: timeoutFires_def Let_def fresh_payload_def attempt_of_def)
    qed
  qed
qed

lemma step_stored:
  assumes "c < length (closures s)"
  shows "lastEmittedData (closures (step ea s) ! c) =
           (case fresh_payload c ea s of
              Some d \<Rightarrow> Some d
            | None \<Rightarrow> lastEmittedData (closures s ! c))"
proof (cases "now (fst ea) < clock s")
  case True
  then show ?thesis
    by (simp add: step_def fresh_payload_def attempt_of_def)
next
  case False
  let ?s' = "s\<lparr>clock := now (fst ea)\<rparr>"
  have f: "fresh_payload c ea ?s' = fresh_payload c ea s"
  proof -
    have "effects ?s' (emitData c (fst ea) ?s') = effects s (emitData c (fst ea) s)"
      by (rule effects_closures_cong) (simp_all add: assms)
    moreover have "attempt_of ea ?s' = attempt_of ea s"
      using False by (cases "snd ea") (simp_all add: attempt_of_def)
    ultimately show ?thesis by (simp add: fresh_payload_def)
  qed
  from False dispatch_stored [of c ?s' "fst ea" "snd ea"] assms show ?thesis
    by (simp add: step_def f split: option.splits)
qed

lemma run_stored:
  "c < length (closures s) \<Longrightarrow>
   lastEmittedData (closures (run tr s) ! c) =
     (case last_fresh c tr s of
        Some d \<Rightarrow> Some d
      | None \<Rightarrow> lastEmittedData (closures s ! c))"
proof (induction tr arbitrary: s)
  case Nil
  show ?case by (simp add: run_def)
next
  case (Cons ea tr)
  have "c < length (closures (step ea s))"
    using Cons.prems counts_le_step [of s ea] by (simp add: counts_le_def)
  from Cons.IH [OF this] step_stored [OF Cons.prems, of ea] show ?case
    by (simp add: run_def split: option.splits)
qed

text \<open>
  C7, as amended. A new closure holds no payload, and after \<open>startStream\<close> it holds
  one only if the immediate first attempt generated and queued it. An attempt that takes
  the fresh branch stores the payload it generates at once and queues that same payload;
  the delayed callback broadcasts the queued payload, counts it and leaves the stored
  one alone. Along any run the stored payload of a closure is the payload generated by
  its most recent fresh-branch attempt. A closure without a stored payload broadcasts
  none from an attempt. A duplicate-injection attempt broadcasts exactly the stored
  payload on the stream's channel and adds one to \<open>emissionCount\<close>; the rest of the
  state, \<open>lastEmittedData\<close> included, stays as it was.
\<close>

theorem duplicate_replays_stored_payload:
  "(emissionCount (closures (startStream sock config env s) ! length (closures s)) = 0 \<and>
    (case lastEmittedData (closures (startStream sock config env s) ! length (closures s)) of
       None \<Rightarrow> True
     | Some d \<Rightarrow>
         d = generate (streamName (destructure config)) 0 env \<and>
         map t_task (timeouts (startStream sock config env s)) =
           map t_task (timeouts s) @ [BroadcastTask (length (closures s)) d])) \<and>
   (c < length (closures s) \<and> lastEmittedData (closures s ! c) = None \<longrightarrow>
      \<not> list_ex is_data (new_events s (emitData c env s))) \<and>
   (effects s (emitData c env s) = [FreshEmission] \<longrightarrow>
      emitData c env s =
        s\<lparr>closures := (closures s)
             [c := (closures s ! c)
                \<lparr>lastEmittedData :=
                   Some (generate (streamName (cfg (closures s ! c)))
                           (emissionCount (closures s ! c)) env)\<rparr>],
          timeouts := timeouts s @
             [\<lparr>t_task = BroadcastTask c
                   (generate (streamName (cfg (closures s ! c)))
                      (emissionCount (closures s ! c)) env),
               t_due = real_of_int (now env) +
                 (if 0 < delayVariation (cfg (closures s ! c))
                  then rnd_delay env * delayVariation (cfg (closures s ! c)) else 0)\<rparr>]\<rparr>) \<and>
   (c < length (closures s) \<longrightarrow>
      broadcastData c d s =
        s\<lparr>emitted := emitted s @ [Broadcast (streamName (cfg (closures s ! c))) (DataP d)],
          closures := (closures s)
            [c := (closures s ! c)
               \<lparr>emissionCount := emissionCount (closures s ! c) + 1\<rparr>]\<rparr>) \<and>
   (c < length (closures s) \<longrightarrow>
      lastEmittedData (closures (run tr s) ! c) =
        (case last_fresh c tr s of
           Some p \<Rightarrow> Some p
         | None \<Rightarrow> lastEmittedData (closures s ! c))) \<and>
   (effects s (emitData c env s) = [DuplicateInjection] \<longrightarrow>
      (\<exists>p. lastEmittedData (closures s ! c) = Some p \<and>
           emitData c env s =
             s\<lparr>emitted := emitted s @ [Broadcast (streamName (cfg (closures s ! c))) (DataP p)],
               closures := (closures s)
                 [c := (closures s ! c)
                    \<lparr>emissionCount := emissionCount (closures s ! c) + 1\<rparr>]\<rparr>))"
proof (intro conjI impI)
  show "emissionCount (closures (startStream sock config env s) ! length (closures s)) = 0"
    by (cases sock)
       (simp_all add: startStream_def emitData_def Let_def io_emit_def socket_emit_def)
  show "case lastEmittedData (closures (startStream sock config env s) ! length (closures s)) of
       None \<Rightarrow> True
     | Some d \<Rightarrow>
         d = generate (streamName (destructure config)) 0 env \<and>
         map t_task (timeouts (startStream sock config env s)) =
           map t_task (timeouts s) @ [BroadcastTask (length (closures s)) d]"
    by (cases sock)
       (simp_all add: startStream_def emitData_def Let_def io_emit_def socket_emit_def)
next
  assume "c < length (closures s) \<and> lastEmittedData (closures s ! c) = None"
  then show "\<not> list_ex is_data (new_events s (emitData c env s))"
    by (auto simp add: emitData_def Let_def io_emit_def new_events_def stopStream_emitted
          split: option.splits)
next
  assume e: "effects s (emitData c env s) = [FreshEmission]"
  then have c: "c < length (closures s)"
    by (intro effects_in_range [of s c env]) simp
  from emitData_effects [OF c, of env] e
  have g: "\<not> duration (cfg (closures s ! c)) \<le> real_of_int (now env - startTime (closures s ! c))"
    "\<not> (0 < errorRate (cfg (closures s ! c))
        \<and> rnd_error env * 100 < errorRate (cfg (closures s ! c)))"
    "\<not> (0 < duplicateRate (cfg (closures s ! c))
        \<and> rnd_duplicate env * 100 < duplicateRate (cfg (closures s ! c))
        \<and> lastEmittedData (closures s ! c) \<noteq> None)"
    by (auto simp: Let_def split: if_splits)
  with c show "emitData c env s =
        s\<lparr>closures := (closures s)
             [c := (closures s ! c)
                \<lparr>lastEmittedData :=
                   Some (generate (streamName (cfg (closures s ! c)))
                           (emissionCount (closures s ! c)) env)\<rparr>],
          timeouts := timeouts s @
             [\<lparr>t_task = BroadcastTask c
                   (generate (streamName (cfg (closures s ! c)))
                      (emissionCount (closures s ! c)) env),
               t_due = real_of_int (now env) +
                 (if 0 < delayVariation (cfg (closures s ! c))
                  then rnd_delay env * delayVariation (cfg (closures s ! c)) else 0)\<rparr>]\<rparr>"
    by (auto simp add: emitData_def Let_def)
next
  assume "c < length (closures s)"
  then show "broadcastData c d s =
        s\<lparr>emitted := emitted s @ [Broadcast (streamName (cfg (closures s ! c))) (DataP d)],
          closures := (closures s)
            [c := (closures s ! c)
               \<lparr>emissionCount := emissionCount (closures s ! c) + 1\<rparr>]\<rparr>"
    by (simp add: broadcastData_def Let_def io_emit_def)
next
  assume "c < length (closures s)"
  then show "lastEmittedData (closures (run tr s) ! c) =
        (case last_fresh c tr s of
           Some p \<Rightarrow> Some p
         | None \<Rightarrow> lastEmittedData (closures s ! c))"
    by (rule run_stored)
next
  assume e: "effects s (emitData c env s) = [DuplicateInjection]"
  then have c: "c < length (closures s)"
    by (intro effects_in_range [of s c env]) simp
  from emitData_effects [OF c, of env] e
  have g: "\<not> duration (cfg (closures s ! c)) \<le> real_of_int (now env - startTime (closures s ! c))"
    "\<not> (0 < errorRate (cfg (closures s ! c))
        \<and> rnd_error env * 100 < errorRate (cfg (closures s ! c)))"
    "0 < duplicateRate (cfg (closures s ! c))
     \<and> rnd_duplicate env * 100 < duplicateRate (cfg (closures s ! c))
     \<and> lastEmittedData (closures s ! c) \<noteq> None"
    by (auto simp: Let_def split: if_splits)
  then obtain p where p: "lastEmittedData (closures s ! c) = Some p" by auto
  with c g show "\<exists>p. lastEmittedData (closures s ! c) = Some p \<and>
           emitData c env s =
             s\<lparr>emitted := emitted s @ [Broadcast (streamName (cfg (closures s ! c))) (DataP p)],
               closures := (closures s)
                 [c := (closures s ! c)
                    \<lparr>emissionCount := emissionCount (closures s ! c) + 1\<rparr>]\<rparr>"
    by (auto simp add: emitData_def io_emit_def Let_def)
qed

text \<open>
  C7 as stated fails on \<open>replay_trace\<close>. After the first attempt the payload \<open>A\<close> is
  stored although nothing has been broadcast or counted. The second attempt stores
  \<open>B\<close>; the delays make listeners receive \<open>B\<close> at \<open>2030\<close> ms and \<open>A\<close> at \<open>2700\<close> ms.
  The duplicate attempt at \<open>4000\<close> ms then broadcasts \<open>B\<close>, which differs from
  \<open>A\<close>, the fresh payload broadcast last.
\<close>

theorem duplicate_differs_from_last_broadcast:
  "lastEmittedData (closures (run (take 1 replay_trace) init) ! 0)
     = Some (generateBookData 0 replay_env_A) \<and>
   emissionCount (closures (run (take 1 replay_trace) init) ! 0) = 0 \<and>
   filter is_data (emitted (run (take 1 replay_trace) init)) = [] \<and>
   filter is_data (emitted (run (take 4 replay_trace) init)) =
     [Broadcast ''books'' (DataP (generateBookData 0 replay_env_B)),
      Broadcast ''books'' (DataP (generateBookData 0 replay_env_A))] \<and>
   effects (run (take 4 replay_trace) init) (run replay_trace init) = [DuplicateInjection] \<and>
   new_events (run (take 4 replay_trace) init) (run replay_trace init) =
     [Broadcast ''books'' (DataP (generateBookData 0 replay_env_B))] \<and>
   generateBookData 0 replay_env_B \<noteq> generateBookData 0 replay_env_A"
  by (simp add: replay_trace_def replay_config_def replay_env_A_def replay_env_B_def
        replay_env_dup_def engine_defs effects_def new_events_def generateBookData_def)

theorem duplicate_replays_stored_payload_witness:
  "effects distinctDuplicates_state (emitData 0 (env_low 2000) distinctDuplicates_state)
     = [DuplicateInjection] \<and>
   new_events distinctDuplicates_state (emitData 0 (env_low 2000) distinctDuplicates_state)
     = [Broadcast ''books'' (DataP (generateBookData 0 (env_at 0)))] \<and>
   effects distinctDuplicates_state (emitData 0 (env_at 2000) distinctDuplicates_state)
     = [FreshEmission] \<and>
   lastEmittedData (closures (emitData 0 (env_at 2000) distinctDuplicates_state) ! 0)
     = Some (generateBookData 0 (env_at 2000)) \<and>
   (0 < length (closures burst_state) \<and> lastEmittedData (closures burst_state ! 0) = None) \<and>
   \<not> list_ex is_data (new_events burst_state (emitData 0 (env_low 1000) burst_state)) \<and>
   emissionCount (closures (broadcastData 0 (generateBookData 0 (env_at 0))
      distinctDuplicates_state) ! 0) = 1 \<and>
   0 < length (closures (run (take 1 replay_trace) init)) \<and>
   last_fresh 0 (drop 1 replay_trace) (run (take 1 replay_trace) init)
     = Some (generateBookData 0 replay_env_B) \<and>
   lastEmittedData (closures (run (drop 1 replay_trace) (run (take 1 replay_trace) init)) ! 0)
     = Some (generateBookData 0 replay_env_B)"
proof -
  let ?dd = distinctDuplicates_state
  let ?r1 = "run (take 1 replay_trace) init"
  have dup: "effects ?dd (emitData 0 (env_low 2000) ?dd) = [DuplicateInjection]"
    by (simp add: distinctDuplicates_state_def engine_defs effects_def new_events_def)
  have fresh: "effects ?dd (emitData 0 (env_at 2000) ?dd) = [FreshEmission]"
    by (simp add: distinctDuplicates_state_def engine_defs effects_def new_events_def)
  have absent: "0 < length (closures burst_state) \<and>
    lastEmittedData (closures burst_state ! 0) = None"
    by (simp add: burst_state_def burst_config_def engine_defs)
  have facts: "streamName (cfg (closures ?dd ! 0)) = ''books''"
    "emissionCount (closures ?dd ! 0) = 0"
    "lastEmittedData (closures ?dd ! 0) = Some (generateBookData 0 (env_at 0))"
    "0 < length (closures ?dd)"
    by (simp_all add: distinctDuplicates_state_def engine_defs)
  have r: "0 < length (closures ?r1)"
    by (simp add: replay_trace_def replay_config_def replay_env_A_def engine_defs)
  have lf: "last_fresh 0 (drop 1 replay_trace) ?r1 = Some (generateBookData 0 replay_env_B)"
    by (simp add: replay_trace_def replay_config_def replay_env_A_def replay_env_B_def
          replay_env_dup_def engine_defs fresh_payload_def attempt_of_def effects_def
          new_events_def)
  note t1 = duplicate_replays_stored_payload
    [where s = ?dd and c = 0 and env = "env_low 2000"
       and d = "generateBookData 0 (env_at 0)"]
  note t2 = duplicate_replays_stored_payload [where s = ?dd and c = 0 and env = "env_at 2000"]
  note t3 = duplicate_replays_stored_payload
    [where s = burst_state and c = 0 and env = "env_low 1000"]
  note t4 = duplicate_replays_stored_payload
    [where s = ?r1 and c = 0 and tr = "drop 1 replay_trace"]
  have a: "new_events ?dd (emitData 0 (env_low 2000) ?dd)
     = [Broadcast ''books'' (DataP (generateBookData 0 (env_at 0)))]"
    using t1 dup facts by (auto simp add: new_events_def)
  have b: "lastEmittedData (closures (emitData 0 (env_at 2000) ?dd) ! 0)
     = Some (generateBookData 0 (env_at 2000))"
    using t2 fresh facts by (auto simp add: generate_def)
  have c: "\<not> list_ex is_data (new_events burst_state (emitData 0 (env_low 1000) burst_state))"
    using t3 absent by blast
  have d: "emissionCount (closures (broadcastData 0 (generateBookData 0 (env_at 0)) ?dd) ! 0) = 1"
    using t1 facts by auto
  have e: "lastEmittedData (closures (run (drop 1 replay_trace) ?r1) ! 0)
     = Some (generateBookData 0 replay_env_B)"
    using t4 r lf by auto
  from dup a fresh b absent c d r lf e show ?thesis by blast
qed

subsection \<open>Registry and interval timers\<close>

lemma live_of_clear:
  "i < length ivs \<Longrightarrow>
   set (live_of (ivs[i := (ivs ! i)\<lparr>iv_cleared := True\<rparr>])) = set (live_of ivs) - {i}"
  by (auto simp add: live_of_def nth_list_update)

lemma live_of_bound: "i \<in> set (live_of ivs) \<Longrightarrow> i < length ivs"
  by (simp add: live_of_def)

lemma live_of_append:
  "live_of (ivs @ [iv]) = live_of ivs @ (if iv_cleared iv then [] else [length ivs])"
proof -
  have "filter (\<lambda>i. \<not> iv_cleared ((ivs @ [iv]) ! i)) [0..<length ivs] =
        filter (\<lambda>i. \<not> iv_cleared (ivs ! i)) [0..<length ivs]"
    by (rule filter_cong) (simp_all add: nth_append)
  then show ?thesis
    by (simp add: live_of_def)
qed

lemma live_of_due: "live_of (ivs[i := (ivs ! i)\<lparr>iv_due := x\<rparr>]) = live_of ivs"
proof -
  have "iv_cleared (ivs[i := (ivs ! i)\<lparr>iv_due := x\<rparr>] ! j) = iv_cleared (ivs ! j)"
    if "j < length ivs" for j
    using that by (cases "j = i") simp_all
  then have "filter (\<lambda>j. \<not> iv_cleared (ivs[i := (ivs ! i)\<lparr>iv_due := x\<rparr>] ! j)) [0..<length ivs] =
        filter (\<lambda>j. \<not> iv_cleared (ivs ! j)) [0..<length ivs]"
    by (intro filter_cong) simp_all
  then show ?thesis
    by (simp add: live_of_def)
qed

lemma live_intervals_stopStream:
  "map_of (activeStreams s) name = Some st \<Longrightarrow> intervalId st < length (intervals s) \<Longrightarrow>
   set (live_intervals (stopStream name s)) = set (live_intervals s) - {intervalId st}"
  by (simp add: live_intervals_def stopStream_def io_emit_def clearInterval_def live_of_clear)

lemma delete_entry:
  assumes "distinct (map fst al)" and "map_of al n = Some st"
  shows "set (AList.delete n al) = set al - {(n, st)}"
proof (rule set_eqI)
  fix p :: "'a \<times> 'b"
  obtain k v where p: "p = (k, v)" by (cases p)
  have u: "v = st" if "(n, v) \<in> set al"
    using map_of_is_SomeI [OF assms(1) that] assms(2) by simp
  show "p \<in> set (AList.delete n al) \<longleftrightarrow> p \<in> set al - {(n, st)}"
    unfolding p AList.delete_eq using u by fastforce
qed

lemma registry_ok_stopStream:
  assumes "registry_ok s"
  shows "registry_ok (stopStream name s)"
proof (cases "map_of (activeStreams s) name")
  case None
  with assms show ?thesis by (simp add: stopStream_def)
next
  case (Some st)
  let ?al = "activeStreams s"
  let ?f = "intervalId \<circ> snd"
  from assms have d: "distinct (map fst ?al)" and i: "distinct (map ?f ?al)"
    and l: "set (live_intervals s) = set (map ?f ?al)"
    by (simp_all add: registry_ok_def)
  have m: "(name, st) \<in> set ?al" using Some by (rule map_of_SomeD)
  then have "intervalId st \<in> set (live_intervals s)"
    unfolding l by force
  then have b: "intervalId st < length (intervals s)"
    unfolding live_intervals_def by (rule live_of_bound)
  have inj: "inj_on ?f (set ?al)" using i by (simp add: distinct_map)
  have "set (map ?f (AList.delete name ?al)) = ?f ` (set ?al - {(name, st)})"
    by (simp add: delete_entry [OF d Some])
  also have "\<dots> = ?f ` set ?al - {?f (name, st)}"
    using inj_on_image_set_diff [OF inj, of "set ?al" "{(name, st)}"] m by simp
  finally have ids: "set (map ?f (AList.delete name ?al)) = set (map ?f ?al) - {intervalId st}"
    by simp
  have di: "distinct (map ?f (AList.delete name ?al))"
    using i by (simp add: AList.delete_eq distinct_map_filter)
  have dk: "distinct (map fst (AList.delete name ?al))"
    using d by (rule distinct_delete)
  have act: "activeStreams (stopStream name s) = AList.delete name ?al"
    using Some by (simp add: stopStream_def io_emit_def clearInterval_def)
  show ?thesis
    unfolding registry_ok_def act live_intervals_stopStream [OF Some b] l ids
    using di dk by simp
qed

lemma registry_ok_emitData: "registry_ok s \<Longrightarrow> registry_ok (emitData c env s)"
proof -
  assume r: "registry_ok s"
  have f: "registry_ok (s'\<lparr>emitted := e\<rparr>) = registry_ok s'"
    "registry_ok (s'\<lparr>closures := cs\<rparr>) = registry_ok s'"
    "registry_ok (s'\<lparr>closures := cs, timeouts := ts\<rparr>) = registry_ok s'" for s' e cs ts
    by (simp_all add: registry_ok_def live_intervals_def)
  from r show ?thesis
    by (simp add: emitData_def Let_def io_emit_def registry_ok_stopStream f)
qed

lemma emitData_unregistered:
  assumes "c < length (closures s)"
    and "map_of (activeStreams s) (streamName (cfg (closures s ! c))) = None"
  shows "activeStreams (emitData c env s) = activeStreams s \<and>
         intervals (emitData c env s) = intervals s"
  using assms by (simp add: emitData_def Let_def io_emit_def stopStream_absent)

lemma registry_ok_broadcastData: "registry_ok s \<Longrightarrow> registry_ok (broadcastData c d s)"
  by (simp add: broadcastData_def Let_def io_emit_def registry_ok_def live_intervals_def)

lemma update_absent: "map_of al k = None \<Longrightarrow> AList.update k v al = al @ [(k, v)]"
  by (induction al) (auto split: if_splits)

lemma startStream_registry:
  "activeStreams (startStream sock config env s) =
     activeStreams (stopStream (streamName (destructure config)) s) @
       [(streamName (destructure config),
         \<lparr>intervalId = length (intervals (stopStream (streamName (destructure config)) s)),
          as_config = config, as_startTime = now env,
          as_emissionCount = length (closures s)\<rparr>)] \<and>
   live_intervals (startStream sock config env s) =
     live_intervals (stopStream (streamName (destructure config)) s) @
       [length (intervals (stopStream (streamName (destructure config)) s))]"
proof -
  let ?n = "streamName (destructure config)"
  let ?s1 = "stopStream ?n s"
  let ?cl = "\<lparr>cfg = destructure config, startTime = now env, emissionCount = 0,
              lastEmittedData = None\<rparr>"
  have upd: "AList.update ?n v (activeStreams ?s1) = activeStreams ?s1 @ [(?n, v)]" for v
    by (rule update_absent) simp
  have same: "activeStreams (emitData (length (closures s)) env st) = activeStreams ?s1 \<and>
              intervals (emitData (length (closures s)) env st) = intervals st"
    if "closures st = closures s @ [?cl]" "activeStreams st = activeStreams ?s1" for st
    using emitData_unregistered [of "length (closures s)" st env] that by simp
  show ?thesis
  proof (cases "burstMode (destructure config)")
    case True
    then show ?thesis
      by (cases sock)
         (simp_all add: startStream_def Let_def socket_emit_def upd live_intervals_def
            live_of_append)
  next
    case False
    let ?st = "?s1\<lparr>streamConfigs := AList.update ?n config (streamConfigs ?s1),
                    closures := closures ?s1 @ [?cl],
                    intervals := intervals ?s1 @
                      [\<lparr>iv_callback = EmitData (length (closures ?s1)),
                        iv_period = interval (destructure config),
                        iv_due = real_of_int (now env) + interval (destructure config),
                        iv_cleared = False\<rparr>]\<rparr>"
    have e: "activeStreams (emitData (length (closures s)) env ?st) = activeStreams ?s1 \<and>
             intervals (emitData (length (closures s)) env ?st) = intervals ?st"
      by (rule same) simp_all
    from False show ?thesis
      using e
      by (cases sock)
         (simp_all add: startStream_def Let_def socket_emit_def upd live_intervals_def
            live_of_append)
  qed
qed

lemma registry_ok_startStream:
  assumes "registry_ok s"
  shows "registry_ok (startStream sock config env s)"
proof -
  let ?n = "streamName (destructure config)"
  let ?s1 = "stopStream ?n s"
  have r: "registry_ok ?s1" using assms by (rule registry_ok_stopStream)
  have absent: "?n \<notin> fst ` set (activeStreams ?s1)"
    by (simp add: map_of_eq_None_iff [symmetric])
  have fresh: "length (intervals ?s1) \<notin> set (live_intervals ?s1)"
    using live_of_bound [of "length (intervals ?s1)" "intervals ?s1"]
    by (auto simp add: live_intervals_def)
  from r absent fresh show ?thesis
    unfolding registry_ok_def
    by (simp add: startStream_registry)
qed

lemma registry_ok_fold_start:
  "registry_ok s \<Longrightarrow>
   registry_ok (fold (\<lambda>config. startStream NoopSocket config env) cs s)"
  by (induction cs arbitrary: s) (simp_all add: registry_ok_startStream)

lemma registry_ok_fold_stop: "registry_ok s \<Longrightarrow> registry_ok (fold stopStream ns s)"
  by (induction ns arbitrary: s) (simp_all add: registry_ok_stopStream)

lemma registry_ok_intervalFires:
  assumes "registry_ok s"
  shows "registry_ok (intervalFires i env s)"
proof -
  have d: "registry_ok (s\<lparr>intervals := (intervals s)[i := (intervals s ! i)\<lparr>iv_due := x\<rparr>]\<rparr>)"
    for x
    using assms by (simp add: registry_ok_def live_intervals_def live_of_due)
  have t: "registry_ok (s'\<lparr>timeouts := ts\<rparr>) = registry_ok s'" for s' ts
    by (simp add: registry_ok_def live_intervals_def)
  show ?thesis
    using assms d
    by (simp add: intervalFires_def Let_def registry_ok_emitData t split: callback.splits)
qed

lemma registry_ok_timeoutFires:
  assumes "registry_ok s"
  shows "registry_ok (timeoutFires j env s)"
proof -
  have t: "registry_ok (s\<lparr>timeouts := ts\<rparr>)" for ts
    using assms by (simp add: registry_ok_def live_intervals_def)
  show ?thesis
    using assms
    by (simp add: timeoutFires_def Let_def registry_ok_emitData registry_ok_broadcastData t
          split: task.splits)
qed

lemma registry_ok_dispatch:
  assumes "registry_ok s"
  shows "registry_ok (dispatch a env s)"
proof (cases a)
  case (OnConnection k)
  with assms show ?thesis
    by (simp add: socket_emit_def registry_ok_def live_intervals_def)
next
  case (OnGetConfigs k)
  with assms show ?thesis
    by (simp add: socket_emit_def registry_ok_def live_intervals_def)
next
  case (PostStart config)
  with assms show ?thesis
    by (simp add: route_start_def instance_of_def registry_ok_startStream)
next
  case (PostStop name)
  with assms show ?thesis
    by (simp add: route_stop_def instance_of_def registry_ok_stopStream)
next
  case PostStopAll
  with assms show ?thesis
    by (simp add: route_stop_all_def instance_of_def stopAllStreams_def registry_ok_fold_stop)
next
  case (PostPreset name)
  with assms show ?thesis
    by (cases "map_of presets name")
       (simp_all add: route_preset_def instance_of_def registry_ok_fold_start)
qed (use assms in \<open>simp_all add: registry_ok_startStream registry_ok_stopStream
       registry_ok_intervalFires registry_ok_timeoutFires\<close>)

lemma registry_ok_step: "registry_ok s \<Longrightarrow> registry_ok (step ea s)"
proof -
  assume r: "registry_ok s"
  then have "registry_ok (s\<lparr>clock := t\<rparr>)" for t
    by (simp add: registry_ok_def live_intervals_def)
  with r show ?thesis
    by (simp add: step_def registry_ok_dispatch)
qed

lemma registry_ok_run: "registry_ok s \<Longrightarrow> registry_ok (run tr s)"
  unfolding run_def
  by (induction tr arbitrary: s) (simp_all add: registry_ok_step)

lemma distinct_filter_eq_le: "distinct xs \<Longrightarrow> length (filter (\<lambda>k. k = a) xs) \<le> 1"
proof (induction xs)
  case Nil
  show ?case by simp
next
  case (Cons x xs)
  show ?case
  proof (cases "x = a")
    case True
    with Cons.prems have "filter (\<lambda>k. k = a) xs = []"
      by (auto simp add: filter_empty_conv)
    with True show ?thesis by simp
  next
    case False
    with Cons show ?thesis by simp
  qed
qed

text \<open>
  In every reachable state the registry has one entry per name, and the interval timers
  that are not cleared are exactly the ones the entries own, one for each entry.
\<close>

lemma one_interval_timer_per_name:
  "distinct (map fst (activeStreams (run tr init))) \<and>
   length (filter (\<lambda>e. fst e = name) (activeStreams (run tr init))) \<le> 1 \<and>
   set (live_intervals (run tr init)) =
     set (map (intervalId \<circ> snd) (activeStreams (run tr init))) \<and>
   length (live_intervals (run tr init)) = length (activeStreams (run tr init))"
proof -
  let ?s = "run tr init"
  have "registry_ok init"
    by (simp add: registry_ok_def live_intervals_def live_of_def init_def)
  then have r: "registry_ok ?s" by (rule registry_ok_run)
  then have d: "distinct (map fst (activeStreams ?s))"
    and i: "distinct (map (intervalId \<circ> snd) (activeStreams ?s))"
    and l: "set (live_intervals ?s) = set (map (intervalId \<circ> snd) (activeStreams ?s))"
    by (simp_all add: registry_ok_def)
  have "distinct (live_intervals ?s)"
    by (simp add: live_intervals_def live_of_def)
  then have "length (live_intervals ?s) = card (set (live_intervals ?s))"
    by (simp add: distinct_card)
  also have "\<dots> = length (map (intervalId \<circ> snd) (activeStreams ?s))"
    unfolding l using i by (rule distinct_card)
  finally have n: "length (live_intervals ?s) = length (activeStreams ?s)" by simp
  have "length (filter (\<lambda>k. k = name) (map fst (activeStreams ?s))) \<le> 1"
    using d by (rule distinct_filter_eq_le)
  then have "length (filter (\<lambda>e. fst e = name) (activeStreams ?s)) \<le> 1"
    by (simp add: filter_map comp_def)
  with d l n show ?thesis by simp
qed

subsection \<open>Timeouts that outlive their stream\<close>

text \<open>
  A completion event is only ever produced by an attempt whose elapsed time has reached
  the duration, and it carries the closure's name, counter and elapsed time.
\<close>

lemma complete_event_after_duration:
  assumes "Broadcast ch (CompleteP n tot d) \<in> set (new_events s (emitData c env s))"
  shows "c < length (closures s) \<and> d = now env - startTime (closures s ! c) \<and>
         duration (cfg (closures s ! c)) \<le> real_of_int d \<and>
         tot = emissionCount (closures s ! c) \<and> n = streamName (cfg (closures s ! c)) \<and>
         ch = n @ ''-complete''"
  using assms
  by (cases "c < length (closures s)")
     (auto simp add: emitData_def Let_def io_emit_def new_events_def stopStream_emitted
        split: if_splits option.splits)

text \<open>
  C3 at the failing input \<open>burst_config\<close>. The burst of \<open>5000\<close> ms queues three
  attempts. \<open>stopStream\<close> clears the interval timer but no timeout, so each attempt
  finds the duration elapsed and broadcasts \<open>books-complete\<close>: three completion events
  for one stream.
\<close>

theorem burst_completes_three_times:
  "emitted (run burst_trace init) =
     [Targeted 0 ''stream-started'' (StartedP ''books'' burst_config),
      Broadcast ''stream-stopped'' (StoppedP ''books''),
      Broadcast ''books-complete'' (CompleteP ''books'' 0 5000),
      Broadcast ''books-complete'' (CompleteP ''books'' 0 5100),
      Broadcast ''books-complete'' (CompleteP ''books'' 0 5200)] \<and>
   length (filter is_complete (emitted (run burst_trace init))) = 3"
  by (simp add: burst_trace_def burst_config_def engine_defs upt_conv_Cons)

text \<open>
  The same claim in normal mode with \<open>duration: 0\<close>. The immediate first attempt runs
  before the stream is entered in \<open>activeStreams\<close>: it broadcasts \<open>books-complete\<close>,
  its \<open>stopStream\<close> finds nothing to stop, and the stream is then registered with a live
  interval timer. The next firing completes the stream a second time.
\<close>

lemma zero_duration_completes_twice:
  "emitted (run (take 1 zero_trace) init) =
     [Broadcast ''books-complete'' (CompleteP ''books'' 0 0),
      Targeted 0 ''stream-started'' (StartedP ''books'' zero_config)] \<and>
   map fst (activeStreams (run (take 1 zero_trace) init)) = [''books''] \<and>
   \<not> iv_cleared (intervals (run (take 1 zero_trace) init) ! 0) \<and>
   filter is_complete (emitted (run zero_trace init)) =
     [Broadcast ''books-complete'' (CompleteP ''books'' 0 0),
      Broadcast ''books-complete'' (CompleteP ''books'' 0 1000)]"
  by (simp add: zero_trace_def zero_config_def engine_defs)

text \<open>
  C10 at the failing input \<open>zero_config\<close>. The immediate first attempt of
  \<open>startStream\<close> takes the completion branch before the stream is entered in
  \<open>activeStreams\<close>: \<open>books-complete\<close> is broadcast with no \<open>stream-stopped\<close> before
  it, and afterwards the stream is registered, listed by \<open>getStreamConfigs\<close>, and its
  interval timer is live.
\<close>

theorem completion_without_stop:
  "emitted (run (take 1 zero_trace) init) =
     [Broadcast ''books-complete'' (CompleteP ''books'' 0 0),
      Targeted 0 ''stream-started'' (StartedP ''books'' zero_config)] \<and>
   map_of (getStreamConfigs (run (take 1 zero_trace) init)) ''books'' = Some zero_config \<and>
   map_of (activeStreams (run (take 1 zero_trace) init)) ''books'' =
     Some \<lparr>intervalId = 0, as_config = zero_config, as_startTime = 0,
           as_emissionCount = 0\<rparr> \<and>
   \<not> iv_cleared (intervals (run (take 1 zero_trace) init) ! 0)"
  by (simp add: zero_trace_def zero_config_def engine_defs)

text \<open>
  C2 at the failing input \<open>timing_trace\<close>. After \<open>POST /streams/stop/books\<close> the stream
  is gone from the registry and its interval timer is cleared, with \<open>emissionCount = 0\<close>.
  The delayed broadcast queued by the first attempt still fires: it broadcasts the
  payload after \<open>stream-stopped\<close> and raises \<open>emissionCount\<close> to \<open>1\<close>.
\<close>

theorem emissionCount_changes_after_stop:
  "map_of (activeStreams (run (take 2 timing_trace) init)) ''books'' = None \<and>
   iv_cleared (intervals (run (take 2 timing_trace) init) ! 0) \<and>
   emitted (run (take 2 timing_trace) init) =
     [Broadcast ''stream-stopped'' (StoppedP ''books'')] \<and>
   emissionCount (closures (run (take 2 timing_trace) init) ! 0) = 0 \<and>
   emissionCount (closures (run timing_trace init) ! 0) = 1 \<and>
   emitted (run timing_trace init) =
     [Broadcast ''stream-stopped'' (StoppedP ''books''),
      Broadcast ''books'' (DataP (generateBookData 0 (env_at 0)))]"
  by (simp add: timing_trace_def engine_defs)

text \<open>
  C4 at the failing input \<open>restart_trace\<close>. Right after the second \<open>start-stream\<close> the
  registry holds the new stream (closure \<open>1\<close>, interval \<open>1\<close>) and the old interval timer
  is cleared, but two attempts of the old closure are still queued. The next one runs at
  \<open>5100\<close> ms: the old closure generates payload \<open>1001\<close>, broadcasts it on \<open>books\<close> and
  counts it, while the new stream is the one registered under \<open>books\<close>.
\<close>

theorem old_closure_emits_after_restart:
  "map_of (activeStreams (run (take 5 restart_trace) init)) ''books'' =
     Some \<lparr>intervalId = 1, as_config = restart_config, as_startTime = 5050,
           as_emissionCount = 1\<rparr> \<and>
   iv_cleared (intervals (run (take 5 restart_trace) init) ! 0) \<and>
   map t_task (timeouts (run (take 5 restart_trace) init)) = [EmitTask 0, EmitTask 0] \<and>
   emissionCount (closures (run (take 5 restart_trace) init) ! 0) = 1 \<and>
   emissionCount (closures (run restart_trace init) ! 0) = 2 \<and>
   emitted (run restart_trace init) =
     emitted (run (take 5 restart_trace) init) @
       [Broadcast ''books'' (DataP (generateBookData 1 (env_at 5100)))] \<and>
   map_of (activeStreams (run restart_trace init)) ''books'' =
     Some \<lparr>intervalId = 1, as_config = restart_config, as_startTime = 5050,
           as_emissionCount = 1\<rparr> \<and>
   map (streamName \<circ> cfg) (closures (run restart_trace init)) = [''books'', ''books'']"
  by (simp add: restart_trace_def restart_config_def engine_defs upt_conv_Cons)

subsection \<open>A stream with \<open>errorRate = 100\<close>\<close>

lemma quiet_frame [simp]:
  "quiet c (s\<lparr>activeStreams := a\<rparr>) = quiet c s"
  "quiet c (s\<lparr>streamConfigs := b\<rparr>) = quiet c s"
  "quiet c (s\<lparr>intervals := i\<rparr>) = quiet c s"
  "quiet c (s\<lparr>emitted := e\<rparr>) = quiet c s"
  "quiet c (s\<lparr>clock := t\<rparr>) = quiet c s"
  by (simp_all add: quiet_def)

lemma quiet_stopStream [simp]: "quiet c (stopStream name s) = quiet c s"
  by (simp add: quiet_def)

lemma quiet_emitData:
  assumes "quiet c s" and "unit_draw env"
  shows "quiet c (emitData c' env s)"
proof (cases "c' = c")
  case True
  with assms show ?thesis
    by (simp add: quiet_def unit_draw_def emitData_def Let_def io_emit_def)
next
  case False
  with assms show ?thesis
    by (simp add: quiet_def emitData_def Let_def io_emit_def)
qed

lemma quiet_broadcastData:
  "quiet c s \<Longrightarrow> c' \<noteq> c \<Longrightarrow> quiet c (broadcastData c' d s)"
  by (simp add: quiet_def broadcastData_def Let_def io_emit_def)

lemma quiet_startStream:
  assumes "quiet c s" and "unit_draw env"
  shows "quiet c (startStream sock config env s)"
proof -
  have q: "quiet c s'" if "closures s' = closures s @ [cl]" "timeouts s' = timeouts s" for s' cl
    using assms(1) that by (simp add: quiet_def nth_append)
  show ?thesis
    unfolding startStream_def Let_def
    apply (cases sock; cases "burstMode (destructure config)"; simp add: socket_emit_def)
       apply (rule q; simp)
      apply (rule quiet_emitData [OF _ assms(2)]; rule q; simp)
     apply (rule q; simp)
    apply (rule quiet_emitData [OF _ assms(2)]; rule q; simp)
    done
qed

lemma quiet_fold_start:
  "quiet c s \<Longrightarrow> unit_draw env \<Longrightarrow>
   quiet c (fold (\<lambda>config. startStream NoopSocket config env) cs s)"
  by (induction cs arbitrary: s) (simp_all add: quiet_startStream)

lemma quiet_fold_stop: "quiet c (fold stopStream ns s) = quiet c s"
  by (induction ns arbitrary: s) simp_all

lemma quiet_more_attempts:
  "quiet c s \<Longrightarrow> closures s' = closures s \<Longrightarrow>
   timeouts s' = timeouts s @ map (\<lambda>j. \<lparr>t_task = EmitTask c', t_due = f j\<rparr>) js \<Longrightarrow>
   quiet c s'"
  by (auto simp add: quiet_def list_ex_iff)

lemma quiet_intervalFires:
  assumes "quiet c s" and "unit_draw env"
  shows "quiet c (intervalFires i env s)"
proof (cases "i < length (intervals s) \<and> \<not> iv_cleared (intervals s ! i)
         \<and> iv_due (intervals s ! i) \<le> real_of_int (now env)")
  case False
  with assms show ?thesis by (auto simp add: intervalFires_def)
next
  case True
  show ?thesis
  proof (cases "iv_callback (intervals s ! i)")
    case (EmitData c')
    with True assms show ?thesis
      by (simp add: intervalFires_def Let_def quiet_emitData)
  next
    case (Burst c')
    show ?thesis
    proof (cases "c' < length (closures s)")
      case False
      with True Burst assms show ?thesis
        by (simp add: intervalFires_def Let_def)
    next
      case inrange: True
      with True Burst show ?thesis
        by (simp add: intervalFires_def Let_def)
           (rule quiet_more_attempts [OF assms(1)]; simp)
    qed
  qed
qed

lemma quiet_timeoutFires:
  assumes "quiet c s" and "unit_draw env"
  shows "quiet c (timeoutFires j env s)"
proof (cases "j < length (timeouts s) \<and> t_due (timeouts s ! j) \<le> real_of_int (now env)")
  case False
  with assms show ?thesis by (auto simp add: timeoutFires_def)
next
  case True
  let ?s' = "s\<lparr>timeouts := take j (timeouts s) @ drop (Suc j) (timeouts s)\<rparr>"
  have "set (take j (timeouts s) @ drop (Suc j) (timeouts s)) \<subseteq> set (timeouts s)"
    by (auto dest: in_set_takeD in_set_dropD)
  with assms(1) have q: "quiet c ?s'"
    by (auto simp add: quiet_def list_ex_iff)
  have np: "\<not> pending c (timeouts s ! j)"
    using assms(1) True by (auto simp add: quiet_def list_ex_iff)
  show ?thesis
  proof (cases "t_task (timeouts s ! j)")
    case (EmitTask c')
    with True q assms(2) show ?thesis
      by (simp add: timeoutFires_def Let_def quiet_emitData)
  next
    case (BroadcastTask c' d)
    with np have "c' \<noteq> c" by simp
    with True q BroadcastTask show ?thesis
      by (simp add: timeoutFires_def Let_def quiet_broadcastData)
  qed
qed

lemma quiet_dispatch:
  assumes "quiet c s" and "unit_draw env"
  shows "quiet c (dispatch a env s)"
proof (cases a)
  case (PostStart config)
  with assms show ?thesis
    by (simp add: route_start_def instance_of_def quiet_startStream)
next
  case (PostStop name)
  with assms show ?thesis by (simp add: route_stop_def instance_of_def)
next
  case PostStopAll
  with assms show ?thesis
    by (simp add: route_stop_all_def instance_of_def stopAllStreams_def quiet_fold_stop)
next
  case (PostPreset name)
  with assms show ?thesis
    by (cases "map_of presets name")
       (simp_all add: route_preset_def instance_of_def quiet_fold_start)
qed (use assms in \<open>simp_all add: socket_emit_def quiet_startStream quiet_intervalFires
       quiet_timeoutFires\<close>)

lemma quiet_step: "quiet c s \<Longrightarrow> unit_draw (fst ea) \<Longrightarrow> quiet c (step ea s)"
  by (simp add: step_def quiet_dispatch)

lemma quiet_run:
  "quiet c s \<Longrightarrow> list_all (\<lambda>ea. unit_draw (fst ea)) tr \<Longrightarrow> quiet c (run tr s)"
  unfolding run_def
  by (induction tr arbitrary: s) (simp_all add: quiet_step)

text \<open>Every queued task refers to a closure that exists.\<close>

lemma tasks_bound_frame [simp]:
  "tasks_bound (s\<lparr>activeStreams := a\<rparr>) = tasks_bound s"
  "tasks_bound (s\<lparr>streamConfigs := b\<rparr>) = tasks_bound s"
  "tasks_bound (s\<lparr>intervals := i\<rparr>) = tasks_bound s"
  "tasks_bound (s\<lparr>emitted := e\<rparr>) = tasks_bound s"
  "tasks_bound (s\<lparr>clock := t\<rparr>) = tasks_bound s"
  by (simp_all add: tasks_bound_def)

lemma tasks_bound_stopStream [simp]: "tasks_bound (stopStream name s) = tasks_bound s"
  by (simp add: tasks_bound_def)

lemma tasks_bound_emitData: "tasks_bound s \<Longrightarrow> tasks_bound (emitData c env s)"
  by (simp add: tasks_bound_def emitData_def Let_def io_emit_def)

lemma tasks_bound_broadcastData: "tasks_bound s \<Longrightarrow> tasks_bound (broadcastData c d s)"
  by (simp add: tasks_bound_def broadcastData_def Let_def io_emit_def)

lemma tasks_bound_grow:
  "tasks_bound s \<Longrightarrow> closures s' = closures s @ [cl] \<Longrightarrow> timeouts s' = timeouts s \<Longrightarrow>
   tasks_bound s'"
  by (auto simp add: tasks_bound_def list_all_iff)

lemma tasks_bound_startStream:
  assumes "tasks_bound s"
  shows "tasks_bound (startStream sock config env s)"
  unfolding startStream_def Let_def
  apply (cases sock; cases "burstMode (destructure config)"; simp add: socket_emit_def)
     apply (rule tasks_bound_grow [OF assms]; simp)
    apply (rule tasks_bound_emitData; rule tasks_bound_grow [OF assms]; simp)
   apply (rule tasks_bound_grow [OF assms]; simp)
  apply (rule tasks_bound_emitData; rule tasks_bound_grow [OF assms]; simp)
  done

lemma tasks_bound_fold_start:
  "tasks_bound s \<Longrightarrow> tasks_bound (fold (\<lambda>config. startStream NoopSocket config env) cs s)"
  by (induction cs arbitrary: s) (simp_all add: tasks_bound_startStream)

lemma tasks_bound_fold_stop: "tasks_bound (fold stopStream ns s) = tasks_bound s"
  by (induction ns arbitrary: s) simp_all

lemma tasks_bound_intervalFires:
  assumes "tasks_bound s"
  shows "tasks_bound (intervalFires i env s)"
  using assms
  by (auto simp add: intervalFires_def Let_def tasks_bound_emitData split: callback.splits)
     (auto simp add: tasks_bound_def list_all_iff)

lemma tasks_bound_timeoutFires:
  assumes "tasks_bound s"
  shows "tasks_bound (timeoutFires j env s)"
proof -
  have "set (take j (timeouts s) @ drop (Suc j) (timeouts s)) \<subseteq> set (timeouts s)"
    by (auto dest: in_set_takeD in_set_dropD)
  with assms
  have "tasks_bound (s\<lparr>timeouts := take j (timeouts s) @ drop (Suc j) (timeouts s)\<rparr>)"
    by (auto simp add: tasks_bound_def list_all_iff)
  then show ?thesis
    using assms
    by (simp add: timeoutFires_def Let_def tasks_bound_emitData tasks_bound_broadcastData
          split: task.splits)
qed

lemma tasks_bound_dispatch:
  assumes "tasks_bound s"
  shows "tasks_bound (dispatch a env s)"
proof (cases a)
  case (PostStart config)
  with assms show ?thesis
    by (simp add: route_start_def instance_of_def tasks_bound_startStream)
next
  case (PostStop name)
  with assms show ?thesis by (simp add: route_stop_def instance_of_def)
next
  case PostStopAll
  with assms show ?thesis
    by (simp add: route_stop_all_def instance_of_def stopAllStreams_def tasks_bound_fold_stop)
next
  case (PostPreset name)
  with assms show ?thesis
    by (cases "map_of presets name")
       (simp_all add: route_preset_def instance_of_def tasks_bound_fold_start)
qed (use assms in \<open>simp_all add: socket_emit_def tasks_bound_startStream
       tasks_bound_intervalFires tasks_bound_timeoutFires\<close>)

lemma tasks_bound_step: "tasks_bound s \<Longrightarrow> tasks_bound (step ea s)"
  by (simp add: step_def tasks_bound_dispatch)

lemma tasks_bound_run: "tasks_bound s \<Longrightarrow> tasks_bound (run tr s)"
  unfolding run_def
  by (induction tr arbitrary: s) (simp_all add: tasks_bound_step)

lemma tasks_bound_init: "tasks_bound init"
  by (simp add: tasks_bound_def init_def)

lemma quiet_established:
  assumes "tasks_bound s" and "errorRate (destructure config) = 100" and "unit_draw env"
  shows "quiet (length (closures s)) (startStream sock config env s)"
proof -
  let ?cl = "\<lparr>cfg = destructure config, startTime = now env, emissionCount = 0,
              lastEmittedData = None\<rparr>"
  have q: "quiet (length (closures s)) s'"
    if "closures s' = closures s @ [?cl]" "timeouts s' = timeouts s" for s'
    using assms(1,2) that
    by (auto simp add: quiet_def tasks_bound_def list_all_iff list_ex_iff split: task.splits)
  show ?thesis
    unfolding startStream_def Let_def
    apply (cases sock; cases "burstMode (destructure config)"; simp add: socket_emit_def)
       apply (rule q; simp)
      apply (rule quiet_emitData [OF _ assms(3)]; rule q; simp)
     apply (rule q; simp)
    apply (rule quiet_emitData [OF _ assms(3)]; rule q; simp)
    done
qed

lemma quiet_attempt:
  assumes "quiet c s" and "unit_draw env"
  shows "effects s (emitData c env s) =
           [if duration (cfg (closures s ! c))
                 \<le> real_of_int (now env - startTime (closures s ! c))
            then DurationComplete else ErrorInjection]"
proof -
  from assms(1) have c: "c < length (closures s)" by (simp add: quiet_def)
  from assms show ?thesis
    unfolding emitData_effects [OF c]
    by (simp add: quiet_def unit_draw_def Let_def)
qed

text \<open>
  C6. Start a stream with \<open>errorRate = 100\<close> in any reachable state and let the server
  run on, every error draw lying in \<open>[0, 1)\<close>. Then at every later point the closure of
  that stream has \<open>emissionCount = 0\<close>, holds no payload and has no broadcast queued, and
  any attempt it makes takes the error branch, or the completion branch once the
  duration has elapsed: neither a fresh nor a duplicate emission ever happens.
\<close>

theorem errorRate_100_only_errors:
  assumes "errorRate (destructure config) = 100"
    and "unit_draw env0"
    and "list_all (\<lambda>ea. unit_draw (fst ea)) tr"
    and "s = run tr (startStream sock config env0 (run tr0 init))"
    and "c = length (closures (run tr0 init))"
  shows "emissionCount (closures s ! c) = 0 \<and>
         lastEmittedData (closures s ! c) = None \<and>
         \<not> list_ex (pending c) (timeouts s) \<and>
         (\<forall>env. unit_draw env \<longrightarrow>
            effects s (emitData c env s) =
              [if duration (cfg (closures s ! c))
                    \<le> real_of_int (now env - startTime (closures s ! c))
               then DurationComplete else ErrorInjection])"
proof -
  have "tasks_bound (run tr0 init)"
    by (rule tasks_bound_run [OF tasks_bound_init])
  then have "quiet c (startStream sock config env0 (run tr0 init))"
    unfolding assms(5) using assms(1,2) by (rule quiet_established)
  then have q: "quiet c s"
    unfolding assms(4) using assms(3) by (rule quiet_run)
  then show ?thesis
    by (auto simp add: quiet_attempt) (simp_all add: quiet_def)
qed


theorem errorRate_100_only_errors_witness:
  "errorRate (destructure always_error_config) = 100 \<and>
   unit_draw (env_at 0) \<and>
   list_all (\<lambda>ea. unit_draw (fst ea)) always_error_trace \<and>
   emissionCount (closures (run always_error_trace
       (startStream (Connection 0) always_error_config (env_at 0) (run [] init))) ! 0) = 0 \<and>
   effects (run always_error_trace
       (startStream (Connection 0) always_error_config (env_at 0) (run [] init)))
     (emitData 0 (env_at 9000) (run always_error_trace
       (startStream (Connection 0) always_error_config (env_at 0) (run [] init))))
     = [ErrorInjection] \<and>
   emitted (run always_error_trace
       (startStream (Connection 0) always_error_config (env_at 0) (run [] init))) =
     [Broadcast ''books-error''
        (ErrorP ''Simulated error'' ''Random error for teaching error handling operators'' 0),
      Targeted 0 ''stream-started'' (StartedP ''books'' always_error_config),
      Broadcast ''books-error''
        (ErrorP ''Simulated error'' ''Random error for teaching error handling operators'' 3000),
      Broadcast ''books-error''
        (ErrorP ''Simulated error''
           ''Random error for teaching error handling operators'' 6000)]"
proof -
  have a: "errorRate (destructure always_error_config) = 100"
    by (simp add: always_error_config_def engine_defs)
  have b: "unit_draw (env_at 0)" "unit_draw (env_at 9000)"
    by (simp_all add: unit_draw_def env_at_def)
  have c: "list_all (\<lambda>ea. unit_draw (fst ea)) always_error_trace"
    by (simp add: always_error_trace_def unit_draw_def env_at_def)
  have d: "0 = length (closures (run [] init))"
    by (simp add: run_def init_def)
  have e: "emitted (run always_error_trace
       (startStream (Connection 0) always_error_config (env_at 0) (run [] init))) =
     [Broadcast ''books-error''
        (ErrorP ''Simulated error'' ''Random error for teaching error handling operators'' 0),
      Targeted 0 ''stream-started'' (StartedP ''books'' always_error_config),
      Broadcast ''books-error''
        (ErrorP ''Simulated error'' ''Random error for teaching error handling operators'' 3000),
      Broadcast ''books-error''
        (ErrorP ''Simulated error''
           ''Random error for teaching error handling operators'' 6000)]"
    by (simp add: always_error_trace_def always_error_config_def engine_defs)
  have f: "\<not> duration (cfg (closures (run always_error_trace
       (startStream (Connection 0) always_error_config (env_at 0) (run [] init))) ! 0))
     \<le> real_of_int (now (env_at 9000) - startTime (closures (run always_error_trace
       (startStream (Connection 0) always_error_config (env_at 0) (run [] init))) ! 0))"
    by (simp add: always_error_trace_def always_error_config_def engine_defs)
  show ?thesis
    using a b c e f errorRate_100_only_errors [OF a b(1) c refl d]
    by simp
qed

end
